theory Spec2Isabelle
  imports Main "HOL-Library.Char_ord" "HOL-Library.List_Lexorder" "HOL-Library.AList"
    "HOL-Library.Word" "HOL-Library.Multiset"
begin

section \<open>Python values, exceptions and slices\<close>

text \<open>
  The exceptions the modelled functions raise. A function that can raise returns
  \<open>exn + 'a\<close> with \<open>Inl\<close> for the exception.
\<close>

datatype exn =
    ValueError | TypeError | IndexError
  | DataStorageError | RetrievalError | BackendError

datatype level = DEBUG | INFO | WARNING | ERROR

type_synonym log = "(level \<times> string) list"

text \<open>
  A Python string is a list of characters, one per code point (the code points below
  256). The values a \<open>Dict[str, Any]\<close> holds: a float is an IEEE-754 double, kept as its
  64 bits (nothing here computes with one). A dict is an association list in insertion order with
  distinct keys: \<open>d.get(k)\<close> is \<open>map_of d k\<close> and \<open>d[k] = v\<close> is \<open>AList.update k v d\<close>,
  which replaces the value in place or appends the new key. A set is the list of its
  elements in iteration order.
\<close>

type_synonym float = "64 word"

datatype pyval =
    VNone | VBool bool | VInt int | VFloat float | VStr string
  | VList "pyval list" | VSet "pyval list" | VDict "(string \<times> pyval) list"

type_synonym pydict = "(string \<times> pyval) list"

text \<open>\<open>isinstance(v, int)\<close>: \<open>bool\<close> is a subclass of \<open>int\<close>, \<open>True\<close> is 1.\<close>

fun as_int :: "pyval \<Rightarrow> int option" where
  "as_int (VInt i) = Some i"
| "as_int (VBool b) = Some (if b then 1 else 0)"
| "as_int _ = None"

text \<open>\<open>str(n)\<close> for a non-negative integer: its decimal digits.\<close>

fun str_nat :: "nat \<Rightarrow> string" where
  "str_nat n = (if n < 10 then [char_of (48 + n)] else str_nat (n div 10) @ [char_of (48 + n mod 10)])"

definition str_int :: "int \<Rightarrow> string" where
  "str_int i = (if i < 0 then CHR ''-'' # str_nat (nat (- i)) else str_nat (nat i))"

text \<open>
  Python's \<open>xs[i:j]\<close> for integers \<open>i\<close> and \<open>j\<close>: a negative bound counts from the end,
  and both bounds are clipped to \<open>[0, len(xs)]\<close>.
\<close>

definition slice_bound :: "int \<Rightarrow> nat \<Rightarrow> nat" where
  "slice_bound i n = (if i < 0 then nat (max 0 (i + int n)) else min (nat i) n)"

definition py_slice :: "'a list \<Rightarrow> int \<Rightarrow> int \<Rightarrow> 'a list" where
  "py_slice xs i j =
     (let a = slice_bound i (length xs); b = slice_bound j (length xs)
      in take (b - a) (drop a xs))"

section \<open>DocumentChunker (data_pipeline/processing/document_chunker.py)\<close>

record document_chunker =
  chunk_size :: int
  chunk_overlap :: int
  chunking_method :: string
  splitter :: "unit option"

text \<open>
  \<open>DocumentChunker.__init__\<close>: the overlap is set to 0 with a warning when it is not
  below the chunk size; an unsupported method raises \<open>ValueError\<close>. The chunk size is
  not checked. The result comes with the records written to the logger (level and
  message template).
\<close>

definition DocumentChunker_init :: "int \<Rightarrow> int \<Rightarrow> string \<Rightarrow> (exn + document_chunker) \<times> log" where
  "DocumentChunker_init csize coverlap meth =
     (let clamp = (coverlap \<ge> csize);
          log1 = (if clamp then [(WARNING, ''Chunk overlap is >= chunk size. Setting overlap to 0.'')] else []);
          self = \<lparr>chunk_size = csize, chunk_overlap = (if clamp then 0 else coverlap), chunking_method = meth,
                  splitter = None\<rparr>
      in if meth = ''recursive_char'' then
           (Inr self, log1 @ [(INFO, ''Initialized RecursiveCharacterTextSplitter (placeholder)'')])
         else if meth = ''simple'' then
           (Inr self, log1 @ [(INFO, ''Using simple character chunking'')])
         else
           (Inl ValueError, log1 @ [(ERROR, ''Unsupported chunking method''),
                                    (ERROR, ''Failed to initialize chunker'')]))"

text \<open>
  \<open>DocumentChunker._simple_chunking\<close>. The \<open>while\<close> loop need not end (it does not for a
  chunk size of 0 on a non-empty text), so it is a partial function: \<open>None\<close> is the loop
  that never returns.
\<close>

partial_function (option) simple_chunking_loop ::
  "int \<Rightarrow> int \<Rightarrow> string \<Rightarrow> int \<Rightarrow> string list \<Rightarrow> string list option" where
  "simple_chunking_loop csize coverlap text start_index chunks =
     (let text_len = int (length text) in
      if start_index < text_len then
        (let end_index = min (start_index + csize) text_len;
             chunks1 = chunks @ [py_slice text start_index end_index];
             next_start = start_index + csize - coverlap;
             next_start1 = (if next_start \<le> start_index then start_index + csize else next_start)
         in if next_start1 \<ge> text_len \<and> int (length (last chunks1)) < csize \<and> end_index = text_len
            then Some chunks1
            else simple_chunking_loop csize coverlap text next_start1 chunks1)
      else Some chunks)"

declare simple_chunking_loop.simps [code]

definition simple_chunking :: "document_chunker \<Rightarrow> string \<Rightarrow> string list option" where
  "simple_chunking self text =
     simple_chunking_loop (chunk_size self) (chunk_overlap self) text 0 []"

text \<open>
  \<open>DocumentChunker.split_text\<close>. A value that is not a string gives the empty list, a text
  no longer than the chunk size is returned whole, and the \<open>recursive_char\<close> method, whose
  splitter is never initialised, falls to the last branch and gives the empty list.
\<close>

definition split_text :: "document_chunker \<Rightarrow> pyval \<Rightarrow> string list option" where
  "split_text self v =
     (case v of
        VStr text \<Rightarrow>
          if int (length text) \<le> chunk_size self then Some [text]
          else if chunking_method self = ''recursive_char'' \<and> splitter self \<noteq> None then simple_chunking self text
          else if chunking_method self = ''simple'' then simple_chunking self text
          else Some []
      | _ \<Rightarrow> Some [])"

section \<open>Document (models/document.py)\<close>

text \<open>
  The pydantic model. Its \<open>id\<close> field (\<open>doc_id\<close> here) defaults to \<open>str(uuid.uuid4())\<close>:
  a constructor call that passes no id draws one from the random generator. The
  generator is a parameter \<open>uuid4\<close>, a function from its state to the string drawn and the
  next state.
\<close>

type_synonym datetime = int

record document =
  doc_id :: string
  content :: string
  metadata :: pydict
  source :: "string option"
  tags :: "string list"
  embedding :: "float list option"
  processed_at :: "datetime option"

section \<open>CharacterSplitter (data_pipeline/processors/document_splitter.py)\<close>

record character_splitter =
  config :: pydict
  cs_chunk_size :: int
  cs_chunk_overlap :: int

text \<open>
  \<open>CharacterSplitter.__init__\<close>: \<open>chunk_size\<close> defaults to 1000 and \<open>chunk_overlap\<close> to 100;
  each of the three checks raises \<open>ValueError\<close>.
\<close>

definition CharacterSplitter_init :: "pydict option \<Rightarrow> exn + character_splitter" where
  "CharacterSplitter_init cfg =
     (let config = (case cfg of None \<Rightarrow> [] | Some c \<Rightarrow> c);
          csize = (case map_of config ''chunk_size'' of None \<Rightarrow> VInt 1000 | Some v \<Rightarrow> v);
          coverlap = (case map_of config ''chunk_overlap'' of None \<Rightarrow> VInt 100 | Some v \<Rightarrow> v)
      in case as_int csize of
           None \<Rightarrow> Inl ValueError
         | Some sz \<Rightarrow>
             if sz \<le> 0 then Inl ValueError
             else (case as_int coverlap of
                 None \<Rightarrow> Inl ValueError
               | Some ov \<Rightarrow>
                   if ov < 0 then Inl ValueError
                   else if ov \<ge> sz then Inl ValueError
                   else Inr \<lparr>config = config, cs_chunk_size = sz, cs_chunk_overlap = ov\<rparr>))"

text \<open>
  The body of the loop of \<open>split_document\<close> that builds the chunk: the parent's metadata
  with the four lineage keys set, the source with the sequence number appended, a copy of
  the tags, and the id drawn by the constructor.
\<close>

definition chunk_metadata :: "document \<Rightarrow> int \<Rightarrow> int \<Rightarrow> int \<Rightarrow> pydict" where
  "chunk_metadata d chunk_seq start_index end_index =
     AList.update ''chunk_end_index'' (VInt end_index)
       (AList.update ''chunk_start_index'' (VInt start_index)
         (AList.update ''chunk_sequence'' (VInt chunk_seq)
           (AList.update ''original_doc_id'' (VStr (doc_id d)) (metadata d))))"

definition chunk_source :: "document \<Rightarrow> int \<Rightarrow> string" where
  "chunk_source d chunk_seq =
     (case source d of None \<Rightarrow> ''unknown'' | Some s \<Rightarrow> if s = [] then ''unknown'' else s)
       @ ''_chunk_'' @ str_int chunk_seq"

definition chunk_doc :: "document \<Rightarrow> int \<Rightarrow> int \<Rightarrow> int \<Rightarrow> string \<Rightarrow> document" where
  "chunk_doc d chunk_seq start_index end_index new_id =
     \<lparr>doc_id = new_id,
      content = py_slice (content d) start_index end_index,
      metadata = chunk_metadata d chunk_seq start_index end_index,
      source = Some (chunk_source d chunk_seq),
      tags = tags d,
      embedding = None,
      processed_at = None\<rparr>"

text \<open>
  The \<open>while\<close> loop of \<open>split_document\<close>, with the state of the random generator threaded
  through. \<open>None\<close> is the loop that never returns.
\<close>

partial_function (option) split_document_loop ::
  "('g \<Rightarrow> string \<times> 'g) \<Rightarrow> int \<Rightarrow> int \<Rightarrow> document \<Rightarrow> int \<Rightarrow> int \<Rightarrow> document list \<Rightarrow> 'g
     \<Rightarrow> (document list \<times> 'g) option" where
  "split_document_loop uuid4 csize coverlap d start_index chunk_seq chunks g =
     (let n = int (length (content d)) in
      if start_index < n then
        (let end_index = min (start_index + csize) n;
             (new_id, g1) = uuid4 g;
             chunks1 = chunks @ [chunk_doc d chunk_seq start_index end_index new_id];
             chunk_seq1 = chunk_seq + 1;
             start1 = start_index + (csize - coverlap)
         in if start1 \<ge> n \<and> length chunks1 > 0 \<and> end_index < n then Some (chunks1, g1)
            else split_document_loop uuid4 csize coverlap d
                   (if start1 \<ge> end_index \<and> end_index < n then end_index else start1)
                   chunk_seq1 chunks1 g1)
      else Some (chunks, g))"

declare split_document_loop.simps [code]

definition split_document ::
  "('g \<Rightarrow> string \<times> 'g) \<Rightarrow> character_splitter \<Rightarrow> document \<Rightarrow> 'g \<Rightarrow> (document list \<times> 'g) option" where
  "split_document uuid4 self d g =
     (if content d = [] then Some ([], g)
      else split_document_loop uuid4 (cs_chunk_size self) (cs_chunk_overlap self) d 0 0 [] g)"

section \<open>VectorDatabaseManager (data_pipeline/datastore/vector_database.py)\<close>

text \<open>
  The embedding model and the ChromaDB collection are libraries outside the repository:
  they are parameters. \<open>encode\<close> is \<open>embedding_model.encode(...).tolist()\<close>, \<open>upsert\<close> and
  \<open>query\<close> are the collection's methods; each may raise. Every call of a collection method
  is recorded in a trace, so that what is forwarded to the backend can be stated.
\<close>

type_synonym vector = "float list"

record upsert_args =
  ids :: "string list"
  embeddings :: "vector list"
  documents :: "pyval list"
  metadatas :: "pydict list"

record query_args =
  query_embeddings :: "vector list"
  n_results :: int
  where_filter :: "pydict option"

text \<open>The dictionary \<open>collection.query\<close> returns; \<open>None\<close> is an absent key.\<close>

record query_result =
  res_ids :: "string list list option"
  res_distances :: "float list list option"
  res_metadatas :: "pydict list list option"
  res_documents :: "string list list option"

record search_hit =
  hit_id :: string
  hit_distance :: float
  hit_metadata :: pydict
  hit_document :: string

text \<open>\<open>isinstance(v, (str, int, float, bool))\<close> and the truth value of \<open>v\<close>.\<close>

fun is_scalar :: "pyval \<Rightarrow> bool" where
  "is_scalar (VStr _) = True"
| "is_scalar (VInt _) = True"
| "is_scalar (VFloat _) = True"
| "is_scalar (VBool _) = True"
| "is_scalar _ = False"

fun truthy :: "pyval \<Rightarrow> bool" where
  "truthy VNone = False"
| "truthy (VBool b) = b"
| "truthy (VInt i) = (i \<noteq> 0)"
| "truthy (VFloat w) = (w \<noteq> 0 \<and> w \<noteq> 0x8000000000000000)"
| "truthy (VStr s) = (s \<noteq> [])"
| "truthy (VList xs) = (xs \<noteq> [])"
| "truthy (VSet xs) = (xs \<noteq> [])"
| "truthy (VDict kvs) = (kvs \<noteq> [])"

definition dict_get :: "pydict \<Rightarrow> string \<Rightarrow> pyval" where
  "dict_get d k = (case map_of d k of None \<Rightarrow> VNone | Some v \<Rightarrow> v)"

text \<open>
  \<open>",".join(sorted(list(tags)))\<close>: \<open>join\<close> raises \<open>TypeError\<close> unless every element is a
  string (\<open>sorted\<close> may raise it before, on elements that do not compare); strings compare
  by code point, lexicographically.
\<close>

fun str_elems :: "pyval list \<Rightarrow> string list option" where
  "str_elems [] = Some []"
| "str_elems (VStr s # vs) = map_option ((#) s) (str_elems vs)"
| "str_elems (_ # vs) = None"

fun join :: "string \<Rightarrow> string list \<Rightarrow> string" where
  "join sep [] = []"
| "join sep [s] = s"
| "join sep (s # t # ss) = s @ sep @ join sep (t # ss)"

definition join_sorted :: "pyval list \<Rightarrow> exn + string" where
  "join_sorted vs = (case str_elems vs of None \<Rightarrow> Inl TypeError | Some ss \<Rightarrow> Inr (join '','' (sort ss)))"

text \<open>The metadata of one document, lines 91 to 94 of \<open>add_documents\<close>.\<close>

definition flatten_metadata :: "pydict \<Rightarrow> string \<Rightarrow> string \<Rightarrow> exn + pydict" where
  "flatten_metadata doc text_key id_key =
     (let md = filter (\<lambda>(k, v). k \<notin> set [text_key, id_key] \<and> is_scalar v) doc
      in case map_of doc ''tags'' of
           Some (VList vs) \<Rightarrow>
             (case join_sorted vs of Inl e \<Rightarrow> Inl e | Inr s \<Rightarrow> Inr (AList.update ''tags'' (VStr s) md))
         | Some (VSet vs) \<Rightarrow>
             (case join_sorted vs of Inl e \<Rightarrow> Inl e | Inr s \<Rightarrow> Inr (AList.update ''tags'' (VStr s) md))
         | _ \<Rightarrow> Inr md)"

text \<open>
  The \<open>for\<close> loop of \<open>add_documents\<close>; \<open>str_of\<close> is Python's \<open>str\<close>. A \<open>TypeError\<close> of the
  join is raised outside the \<open>try\<close> block and leaves the method as it is.
\<close>

fun collect_documents ::
  "(pyval \<Rightarrow> string) \<Rightarrow> string \<Rightarrow> string \<Rightarrow> pydict list \<Rightarrow> string list \<Rightarrow> pyval list \<Rightarrow> pydict list
     \<Rightarrow> exn + (string list \<times> pyval list \<times> pydict list)" where
  "collect_documents str_of text_key id_key [] ids0 texts_to_embed metadatas0 =
     Inr (ids0, texts_to_embed, metadatas0)"
| "collect_documents str_of text_key id_key (doc # docs) ids0 texts_to_embed metadatas0 =
     (let did = dict_get doc id_key; text = dict_get doc text_key
      in if \<not> truthy did \<or> \<not> truthy text
         then collect_documents str_of text_key id_key docs ids0 texts_to_embed metadatas0
         else (case flatten_metadata doc text_key id_key of
                 Inl e \<Rightarrow> Inl e
               | Inr md \<Rightarrow>
                   collect_documents str_of text_key id_key docs
                     (ids0 @ [str_of did]) (texts_to_embed @ [text]) (metadatas0 @ [md])))"

text \<open>
  \<open>add_documents\<close> returns nothing; the model returns the exception raised, if any, and the
  trace of \<open>upsert\<close> calls. \<open>upsert a = Some e\<close> says that the backend raises \<open>e\<close> on \<open>a\<close>.
\<close>

definition add_documents ::
  "(pyval list \<Rightarrow> exn + vector list) \<Rightarrow> (upsert_args \<Rightarrow> exn option) \<Rightarrow> (pyval \<Rightarrow> string)
     \<Rightarrow> pydict list \<Rightarrow> string \<Rightarrow> string \<Rightarrow> (exn + unit) \<times> upsert_args list" where
  "add_documents encode upsert str_of docs text_key id_key =
     (if docs = [] then (Inr (), [])
      else case collect_documents str_of text_key id_key docs [] [] [] of
          Inl e \<Rightarrow> (Inl e, [])
        | Inr (ids0, texts_to_embed, metadatas0) \<Rightarrow>
            if ids0 = [] then (Inr (), [])
            else (case encode texts_to_embed of
                Inl e \<Rightarrow> (Inl RetrievalError, [])
              | Inr embeddings0 \<Rightarrow>
                  (let call = \<lparr>ids = ids0, embeddings = embeddings0,
                                documents = texts_to_embed, metadatas = metadatas0\<rparr>
                   in case upsert call of
                        Some e \<Rightarrow> (Inl RetrievalError, [call])
                      | None \<Rightarrow> (Inr (), [call]))))"

text \<open>
  \<open>search\<close>. \<open>results.get(key, [[]])[0]\<close> raises \<open>IndexError\<close> on an empty list, and so does
  \<open>distances[i]\<close> past the end; the \<open>except\<close> clause turns every exception into
  \<open>RetrievalError\<close>.
\<close>

definition get_first :: "'a list list option \<Rightarrow> exn + 'a list" where
  "get_first field =
     (case (case field of None \<Rightarrow> [[]] | Some v \<Rightarrow> v) of [] \<Rightarrow> Inl IndexError | x # _ \<Rightarrow> Inr x)"

definition item :: "'a list \<Rightarrow> nat \<Rightarrow> exn + 'a" where
  "item xs i = (if i < length xs then Inr (xs ! i) else Inl IndexError)"

fun format_results ::
  "nat \<Rightarrow> string list \<Rightarrow> float list \<Rightarrow> pydict list \<Rightarrow> string list \<Rightarrow> search_hit list
     \<Rightarrow> exn + search_hit list" where
  "format_results i [] distances0 metadatas0 documents0 formatted = Inr formatted"
| "format_results i (did # rest) distances0 metadatas0 documents0 formatted =
     (case item distances0 i of Inl e \<Rightarrow> Inl e | Inr dist \<Rightarrow>
      case item metadatas0 i of Inl e \<Rightarrow> Inl e | Inr meta \<Rightarrow>
      case item documents0 i of Inl e \<Rightarrow> Inl e | Inr doc \<Rightarrow>
        format_results (Suc i) rest distances0 metadatas0 documents0
          (formatted @ [\<lparr>hit_id = did, hit_distance = dist, hit_metadata = meta, hit_document = doc\<rparr>]))"

definition reformat :: "query_result \<Rightarrow> exn + search_hit list" where
  "reformat results =
     (case get_first (res_ids results) of Inl e \<Rightarrow> Inl e | Inr ids0 \<Rightarrow>
      case get_first (res_distances results) of Inl e \<Rightarrow> Inl e | Inr distances0 \<Rightarrow>
      case get_first (res_metadatas results) of Inl e \<Rightarrow> Inl e | Inr metadatas0 \<Rightarrow>
      case get_first (res_documents results) of Inl e \<Rightarrow> Inl e | Inr documents0 \<Rightarrow>
        format_results 0 ids0 distances0 metadatas0 documents0 [])"

definition search ::
  "(pyval list \<Rightarrow> exn + vector list) \<Rightarrow> (query_args \<Rightarrow> exn + query_result)
     \<Rightarrow> string \<Rightarrow> int \<Rightarrow> pydict option \<Rightarrow> (exn + search_hit list) \<times> query_args list" where
  "search encode query query_text n filter_metadata =
     (case encode [VStr query_text] of
        Inl e \<Rightarrow> (Inl RetrievalError, [])
      | Inr query_embedding \<Rightarrow>
          (let call = \<lparr>query_embeddings = query_embedding, n_results = n,
                        where_filter = filter_metadata\<rparr>
           in case query call of
                Inl e \<Rightarrow> (Inl RetrievalError, [call])
              | Inr results \<Rightarrow>
                  (case reformat results of
                     Inl e \<Rightarrow> (Inl RetrievalError, [call])
                   | Inr formatted \<Rightarrow> (Inr formatted, [call]))))"

section \<open>FileSystemDocumentStore (data_pipeline/datastore/document_store.py)\<close>

text \<open>
  The content of a document is \<open>Union[str, bytes]\<close>. The file system maps a path to the
  bytes of the regular file there; \<open>io_error\<close> marks the paths on which \<open>open\<close> and \<open>unlink\<close>
  fail with \<open>OSError\<close>. Directories are not modelled.
\<close>

type_synonym byte = "8 word"

datatype content = Str string | Bytes "byte list"

type_synonym path = string

record filesystem =
  files :: "path \<rightharpoonup> byte list"
  io_error :: "path \<Rightarrow> bool"

text \<open>
  The functions of Python's standard library that the store calls are parameters:
  \<open>urlparse\<close> gives the \<open>netloc\<close> and \<open>path\<close> components, \<open>quote\<close> is \<open>quote(s, safe='')\<close>, the
  codec is UTF-8 (\<open>None\<close> is \<open>UnicodeDecodeError\<close>), \<open>json_dump\<close> gives the text written
  (\<open>Inl\<close> the part written before a \<open>TypeError\<close>) and \<open>json_load\<close> the value parsed (\<open>None\<close> is
  \<open>JSONDecodeError\<close>).
\<close>

record stdlib =
  urlparse :: "string \<Rightarrow> string \<times> string"
  quote :: "string \<Rightarrow> string"
  utf8_encode :: "string \<Rightarrow> byte list"
  utf8_decode :: "byte list \<Rightarrow> string option"
  json_dump :: "pydict \<Rightarrow> string + string"
  json_load :: "string \<Rightarrow> pyval option"

text \<open>\<open>str.lower\<close> on the code points below 256, \<open>str.endswith\<close>, \<open>str.strip('/')\<close>.\<close>

definition lower_char :: "char \<Rightarrow> char" where
  "lower_char c =
     (let n = (of_char c :: nat)
      in if (65 \<le> n \<and> n \<le> 90) \<or> (192 \<le> n \<and> n \<le> 214) \<or> (216 \<le> n \<and> n \<le> 222)
         then char_of (n + 32) else c)"

definition lower :: "string \<Rightarrow> string" where
  "lower s = map lower_char s"

definition endswith :: "string \<Rightarrow> string \<Rightarrow> bool" where
  "endswith s t = (length t \<le> length s \<and> drop (length s - length t) s = t)"

definition strip_slashes :: "string \<Rightarrow> string" where
  "strip_slashes s =
     rev (dropWhile (\<lambda>c. c = CHR ''/'') (rev (dropWhile (\<lambda>c. c = CHR ''/'') s)))"

definition replace_char :: "char \<Rightarrow> char \<Rightarrow> string \<Rightarrow> string" where
  "replace_char a b s = map (\<lambda>c. if c = a then b else c) s"

text \<open>
  \<open>pathlib\<close>: \<open>base / rel\<close> is \<open>rel\<close> when \<open>rel\<close> is absolute; the suffix of a path is the part
  of its last component from the last dot, unless that dot is the first or the last
  character. The path of the sidecar, \<open>p.with_suffix(p.suffix + '.meta.json')\<close>, is \<open>p\<close> with
  \<open>.meta.json\<close> appended, whatever the suffix of \<open>p\<close> is. Normalisation of paths is not
  modelled.
\<close>

definition path_join :: "path \<Rightarrow> string \<Rightarrow> path" where
  "path_join base rel = (case rel of c # _ \<Rightarrow> if c = CHR ''/'' then rel else base @ ''/'' @ rel | [] \<Rightarrow> base)"

definition path_name :: "path \<Rightarrow> string" where
  "path_name p = rev (takeWhile (\<lambda>c. c \<noteq> CHR ''/'') (rev p))"

definition path_suffix :: "path \<Rightarrow> string" where
  "path_suffix p =
     (let name = path_name p;
          after_dot = rev (takeWhile (\<lambda>c. c \<noteq> CHR ''.'') (rev name))
      in if CHR ''.'' \<in> set name \<and> length after_dot + 1 < length name \<and> after_dot \<noteq> []
         then CHR ''.'' # after_dot else [])"

definition meta_path_of :: "path \<Rightarrow> path" where
  "meta_path_of storage_path = storage_path @ ''.meta.json''"

definition get_storage_path :: "stdlib \<Rightarrow> path \<Rightarrow> string \<Rightarrow> path" where
  "get_storage_path lib base_path document_id =
     (let domain = replace_char (CHR '':'') (CHR ''_'') (fst (urlparse lib document_id));
          path_part = take 100 (replace_char (CHR ''%'') (CHR ''_'')
                        (quote lib (strip_slashes (snd (urlparse lib document_id)))));
          sanitized_id = domain @ ''/'' @ path_part;
          ext = (if endswith (lower document_id) ''.pdf'' then ''.pdf''
                 else if endswith (lower document_id) ''.htm'' \<or> endswith (lower document_id) ''.html''
                 then ''.html''
                 else ''.bin'')
      in path_join base_path (sanitized_id @ ext))"

text \<open>
  Reading in text mode decodes UTF-8 and translates CR LF and a lone CR to LF (universal
  newlines); writing in text mode on a POSIX system encodes and translates nothing.
\<close>

fun universal_newlines :: "string \<Rightarrow> string" where
  "universal_newlines (c # d # cs) =
     (if c = CHR 0x0D \<and> d = CHR 0x0A then CHR 0x0A # universal_newlines cs
      else if c = CHR 0x0D then CHR 0x0A # universal_newlines (d # cs)
      else c # universal_newlines (d # cs))"
| "universal_newlines [c] = (if c = CHR 0x0D then [CHR 0x0A] else [c])"
| "universal_newlines [] = []"

definition write_file :: "path \<Rightarrow> byte list \<Rightarrow> filesystem \<Rightarrow> filesystem" where
  "write_file p bs fs = fs\<lparr>files := (files fs)(p \<mapsto> bs)\<rparr>"

definition unlink :: "path \<Rightarrow> filesystem \<Rightarrow> filesystem" where
  "unlink p fs = fs\<lparr>files := (files fs)(p := None)\<rparr>"

text \<open>
  \<open>save_document\<close>: the result is the exception raised, if any, and the file system left
  behind. The mode of the write is chosen by the type of the content. The sidecar is
  written only for a non-empty metadata dictionary.
\<close>

definition save_document ::
  "stdlib \<Rightarrow> path \<Rightarrow> string \<Rightarrow> content \<Rightarrow> pydict option \<Rightarrow> filesystem \<Rightarrow> exn option \<times> filesystem" where
  "save_document lib base_path document_id cont meta fs =
     (let storage_path = get_storage_path lib base_path document_id
      in if io_error fs storage_path then (Some DataStorageError, fs)
         else
           (let fs1 = write_file storage_path
                        (case cont of Bytes bs \<Rightarrow> bs | Str text \<Rightarrow> utf8_encode lib text) fs
            in case meta of
                 None \<Rightarrow> (None, fs1)
               | Some md \<Rightarrow>
                   if md = [] then (None, fs1)
                   else if io_error fs1 (meta_path_of storage_path) then (Some DataStorageError, fs1)
                   else (case json_dump lib md of
                           Inl partial \<Rightarrow>
                             (Some DataStorageError,
                              write_file (meta_path_of storage_path) (utf8_encode lib partial) fs1)
                         | Inr js \<Rightarrow>
                             (None, write_file (meta_path_of storage_path) (utf8_encode lib js) fs1))))"

text \<open>
  \<open>retrieve_document\<close>: \<open>Inr None\<close> is the not-found result. The mode of the read is chosen
  by the suffix of the path, not by what was written: \<open>.bin\<close> and \<open>.pdf\<close> are read as bytes.
  A sidecar that does not parse gives the content with no metadata.
\<close>

definition retrieve_document ::
  "stdlib \<Rightarrow> path \<Rightarrow> string \<Rightarrow> filesystem \<Rightarrow> exn + (content \<times> pyval option) option" where
  "retrieve_document lib base_path document_id fs =
     (let storage_path = get_storage_path lib base_path document_id
      in case files fs storage_path of
           None \<Rightarrow> Inr None
         | Some raw \<Rightarrow>
             if io_error fs storage_path then Inl DataStorageError
             else
               (let is_binary = (path_suffix storage_path = ''.bin'' \<or> path_suffix storage_path = ''.pdf'')
                in case (if is_binary then Some (Bytes raw)
                         else map_option (\<lambda>t. Str (universal_newlines t)) (utf8_decode lib raw)) of
                     None \<Rightarrow> Inl DataStorageError
                   | Some cont \<Rightarrow>
                       (case files fs (meta_path_of storage_path) of
                          None \<Rightarrow> Inr (Some (cont, None))
                        | Some mraw \<Rightarrow>
                            if io_error fs (meta_path_of storage_path) then Inl DataStorageError
                            else (case utf8_decode lib mraw of
                                    None \<Rightarrow> Inl DataStorageError
                                  | Some js \<Rightarrow>
                                      (case json_load lib (universal_newlines js) of
                                         None \<Rightarrow> Inr (Some (cont, None))
                                       | Some md \<Rightarrow> Inr (Some (cont, Some md)))))))"

text \<open>\<open>delete_document\<close>: the flag returned and the file system left behind.\<close>

definition delete_document ::
  "stdlib \<Rightarrow> path \<Rightarrow> string \<Rightarrow> filesystem \<Rightarrow> bool \<times> filesystem" where
  "delete_document lib base_path document_id fs =
     (let storage_path = get_storage_path lib base_path document_id;
          meta_path = meta_path_of storage_path
      in case files fs storage_path of
           None \<Rightarrow> (True, fs)
         | Some _ \<Rightarrow>
             if io_error fs storage_path then (False, fs)
             else
               (let fs1 = unlink storage_path fs
                in case files fs1 meta_path of
                     None \<Rightarrow> (True, fs1)
                   | Some _ \<Rightarrow>
                       if io_error fs1 meta_path then (False, fs1)
                       else (True, unlink meta_path fs1)))"

section \<open>Notions used to state the properties\<close>

text \<open>
  The step by which \<open>_simple_chunking\<close> moves its window: \<open>chunk_size - chunk_overlap\<close>, or
  \<open>chunk_size\<close> when that would not move it forward.
\<close>

definition advance :: "int \<Rightarrow> int \<Rightarrow> int" where
  "advance csize coverlap = (if csize - coverlap \<le> 0 then csize else csize - coverlap)"

text \<open>
  The number of windows that start below \<open>n\<close> when the first starts at \<open>start\<close> and each
  next one \<open>step\<close> further: \<open>(n - start) / step\<close> rounded up, 0 when \<open>start\<close> is not below \<open>n\<close>.
\<close>

definition window_count :: "int \<Rightarrow> int \<Rightarrow> int \<Rightarrow> nat" where
  "window_count step n start = nat ((n - start + step - 1) div step)"

text \<open>The state of the random generator after one draw.\<close>

definition next_state :: "('g \<Rightarrow> string \<times> 'g) \<Rightarrow> 'g \<Rightarrow> 'g" where
  "next_state uuid4 s = snd (uuid4 s)"

text \<open>The offsets a chunk carries in its metadata.\<close>

definition start_offset :: "document \<Rightarrow> int" where
  "start_offset c = (case dict_get (metadata c) ''chunk_start_index'' of VInt i \<Rightarrow> i | _ \<Rightarrow> - 1)"

definition end_offset :: "document \<Rightarrow> int" where
  "end_offset c = (case dict_get (metadata c) ''chunk_end_index'' of VInt i \<Rightarrow> i | _ \<Rightarrow> - 1)"

definition offsets :: "document \<Rightarrow> int \<times> int" where
  "offsets c = (start_offset c, end_offset c)"

section \<open>Environments for the concrete examples\<close>

text \<open>A random generator that hands out a prepared list of ids, one per draw.\<close>

definition draw :: "string list \<Rightarrow> string \<times> string list" where
  "draw g = (case g of [] \<Rightarrow> ([], []) | u # us \<Rightarrow> (u, us))"

text \<open>
  An embedding model that maps every text to the same one-dimensional vector, Python's
  \<open>str\<close> on strings and integers, a collection whose \<open>upsert\<close> accepts every call, and a
  collection whose \<open>query\<close> answers every call, whatever its \<open>n_results\<close>, with the same
  single hit.
\<close>

definition example_encode :: "pyval list \<Rightarrow> exn + vector list" where
  "example_encode texts = Inr (map (\<lambda>_. [0]) texts)"

definition example_str :: "pyval \<Rightarrow> string" where
  "example_str v = (case v of VStr s \<Rightarrow> s | VInt i \<Rightarrow> str_int i | _ \<Rightarrow> [])"

definition example_upsert :: "upsert_args \<Rightarrow> exn option" where
  "example_upsert call = None"

definition example_query :: "query_args \<Rightarrow> exn + query_result" where
  "example_query call =
     Inr \<lparr>res_ids = Some [[''d1#0'']], res_distances = Some [[0]],
          res_metadatas = Some [[[(''parent_document_id'', VStr ''d1'')]]],
          res_documents = Some [[''hello'']]\<rparr>"

text \<open>
  The standard library on the inputs of the storage scenario: the URL
  \<open>http://a.com/x\<close> has the netloc \<open>a.com\<close> and the path \<open>/x\<close>, \<open>quote\<close> leaves letters as they
  are, UTF-8 encodes an ASCII character as its code, and \<open>json.dump\<close> with \<open>indent=2\<close> writes
  the dictionary \<open>{"k": 1}\<close> on three lines.
\<close>

definition example_lib :: stdlib where
  "example_lib =
     \<lparr>urlparse = (\<lambda>u. (''a.com'', ''/x'')),
      quote = (\<lambda>s. s),
      utf8_encode = map of_char,
      utf8_decode = (\<lambda>bs. Some (map (\<lambda>b. char_of (unat b)) bs)),
      json_dump = (\<lambda>md. Inr (''{'' @ [CHR 0x0A] @ ''  '' @ [CHR 0x22] @ ''k'' @ [CHR 0x22] @ '': 1''
                                @ [CHR 0x0A] @ ''}'')),
      json_load = (\<lambda>s. Some (VDict [(''k'', VInt 1)]))\<rparr>"

definition empty_fs :: filesystem where
  "empty_fs = \<lparr>files = Map.empty, io_error = (\<lambda>p. False)\<rparr>"

section \<open>The loops in closed form\<close>

lemma advance_pos: "0 < csize \<Longrightarrow> 0 < advance csize coverlap"
  by (simp add: advance_def)

lemma window_count_stop:
  assumes "0 < step" and "n \<le> start"
  shows "window_count step n start = 0"
proof -
  have "(n - start + step - 1) div step \<le> (step - 1) div step"
    using assms by (intro zdiv_mono1) auto
  then have "(n - start + step - 1) div step \<le> 0"
    using assms by (simp add: div_pos_pos_trivial)
  then show ?thesis by (simp add: window_count_def)
qed

lemma window_count_go:
  assumes "0 < step" and "start < n"
  shows "window_count step n start = Suc (window_count step n (start + step))"
proof -
  have "n - start + step - 1 = (n - (start + step) + step - 1) + 1 * step" by simp
  then have e: "(n - start + step - 1) div step = (n - (start + step) + step - 1) div step + 1"
    using assms(1) by (metis div_mult_self1 less_int_code(1) add.commute mult.commute not_less_iff_gr_or_eq div_add_self2)
  have "0 \<le> (n - (start + step) + step - 1) div step"
    using assms by (simp add: pos_imp_zdiv_nonneg_iff)
  then show ?thesis
    using e by (simp add: window_count_def)
qed

lemma window_count_iff:
  assumes "0 < step"
  shows "k < window_count step n start \<longleftrightarrow> start + int k * step < n"
proof (induction k arbitrary: start)
  case 0
  show ?case
    using window_count_stop[OF assms, of n start] window_count_go[OF assms, of start n]
    by (cases "start < n") auto
next
  case (Suc k)
  show ?case
  proof (cases "start < n")
    case True
    then show ?thesis
      using window_count_go[OF assms True] Suc[of "start + step"] by (simp add: algebra_simps)
  next
    case False
    have "0 \<le> int (Suc k) * step" using assms by simp
    then show ?thesis
      using window_count_stop[OF assms, of n start] False by linarith
  qed
qed

lemma map_upt_Suc_shift: "map f [0..<Suc m] = f 0 # map (\<lambda>k. f (Suc k)) [0..<m]"
  by (simp add: upt_conv_Cons map_Suc_upt[symmetric] del: upt_Suc)

lemma simple_chunking_loop_closed:
  assumes "0 < csize"
  shows "simple_chunking_loop csize coverlap text start chunks =
         Some (chunks @ map (\<lambda>k. py_slice text (start + int k * advance csize coverlap)
                                  (min (start + int k * advance csize coverlap + csize) (int (length text))))
                 [0..<window_count (advance csize coverlap) (int (length text)) start])"
proof (induction "nat (int (length text) - start)" arbitrary: start chunks rule: less_induct)
  case less
  let ?n = "int (length text)"
  let ?step = "advance csize coverlap"
  have sp: "0 < ?step" using assms by (rule advance_pos)
  show ?case
  proof (cases "start < ?n")
    case False
    then show ?thesis
      by (subst simple_chunking_loop.simps) (simp add: window_count_stop[OF sp])
  next
    case True
    let ?chunks1 = "chunks @ [py_slice text start (min (start + csize) ?n)]"
    have m: "nat (?n - (start + ?step)) < nat (?n - start)" using True sp by simp
    note IH = less[OF m, of ?chunks1]
    have nx: "(if start + csize - coverlap \<le> start then start + csize else start + csize - coverlap)
                = start + ?step"
      by (simp add: advance_def)
    have unf: "simple_chunking_loop csize coverlap text start chunks =
        (if start + ?step \<ge> ?n \<and> int (length (last ?chunks1)) < csize \<and> min (start + csize) ?n = ?n
         then Some ?chunks1
         else simple_chunking_loop csize coverlap text (start + ?step) ?chunks1)"
      by (subst simple_chunking_loop.simps) (simp only: Let_def nx True if_True)
    have brk: "start + ?step \<ge> ?n \<Longrightarrow> window_count ?step ?n (start + ?step) = 0"
      by (simp add: window_count_stop[OF sp])
    have "simple_chunking_loop csize coverlap text start chunks =
          Some (?chunks1 @ map (\<lambda>k. py_slice text (start + ?step + int k * ?step)
                                  (min (start + ?step + int k * ?step + csize) ?n))
                 [0..<window_count ?step ?n (start + ?step)])"
      unfolding unf using IH brk by auto
    then show ?thesis
      by (simp add: window_count_go[OF sp True] map_upt_Suc_shift algebra_simps del: upt_Suc)
  qed
qed


lemma split_document_loop_closed:
  assumes "0 < csize" and "0 \<le> coverlap" and "coverlap < csize"
  shows "split_document_loop uuid4 csize coverlap d start seq chunks g =
         Some (chunks @ map (\<lambda>k. chunk_doc d (seq + int k) (start + int k * (csize - coverlap))
                                  (min (start + int k * (csize - coverlap) + csize) (int (length (content d))))
                                  (fst (uuid4 ((next_state uuid4 ^^ k) g))))
                 [0..<window_count (csize - coverlap) (int (length (content d))) start],
               (next_state uuid4 ^^ window_count (csize - coverlap) (int (length (content d))) start) g)"
proof (induction "nat (int (length (content d)) - start)" arbitrary: start seq chunks g rule: less_induct)
  case less
  let ?n = "int (length (content d))"
  let ?step = "csize - coverlap"
  have sp: "0 < ?step" using assms by simp
  show ?case
  proof (cases "start < ?n")
    case False
    then show ?thesis
      by (subst split_document_loop.simps) (simp add: window_count_stop[OF sp])
  next
    case True
    let ?e = "min (start + csize) ?n"
    let ?chunks1 = "chunks @ [chunk_doc d seq start ?e (fst (uuid4 g))]"
    let ?g1 = "next_state uuid4 g"
    have m: "nat (?n - (start + ?step)) < nat (?n - start)" using True sp by simp
    note IH = less[OF m, of "seq + 1" ?chunks1 ?g1]
    have c1: "\<not> (start + ?step \<ge> ?n \<and> length ?chunks1 > 0 \<and> ?e < ?n)"
      using assms by auto
    have c2: "(if start + ?step \<ge> ?e \<and> ?e < ?n then ?e else start + ?step) = start + ?step"
      using assms by auto
    have unf: "split_document_loop uuid4 csize coverlap d start seq chunks g =
        split_document_loop uuid4 csize coverlap d (start + ?step) (seq + 1) ?chunks1 ?g1"
      apply (subst split_document_loop.simps)
      apply (simp only: Let_def True if_True case_prod_beta c1 c2 if_False next_state_def)
      done
    show ?thesis
      unfolding unf IH
      by (simp add: window_count_go[OF sp True] map_upt_Suc_shift funpow_swap1[of "next_state uuid4"]
            algebra_simps del: upt_Suc)
  qed
qed


lemma py_slice_window:
  assumes "0 \<le> s" and "s < int (length xs)" and "0 < w"
  shows "py_slice xs s (min (s + w) (int (length xs))) = take (nat w) (drop (nat s) xs)"
proof -
  have "nat (s + w) - nat s = nat w" using assms by linarith
  then show ?thesis
    using assms by (auto simp: py_slice_def slice_bound_def Let_def min_def)
qed

lemma split_text_closed:
  assumes "0 < chunk_size self"
  shows "split_text self (VStr text) =
     (if int (length text) \<le> chunk_size self then Some [text]
      else if chunking_method self = ''recursive_char'' \<and> splitter self \<noteq> None \<or> chunking_method self = ''simple'' then
        Some (map (\<lambda>k. py_slice text (int k * advance (chunk_size self) (chunk_overlap self))
                       (min (int k * advance (chunk_size self) (chunk_overlap self) + chunk_size self) (int (length text))))
               [0..<window_count (advance (chunk_size self) (chunk_overlap self)) (int (length text)) 0])
      else Some [])"
  using assms by (simp add: split_text_def simple_chunking_def simple_chunking_loop_closed)

lemma CharacterSplitter_init_valid:
  assumes "CharacterSplitter_init cfg = Inr self"
  shows "0 < cs_chunk_size self \<and> 0 \<le> cs_chunk_overlap self \<and> cs_chunk_overlap self < cs_chunk_size self"
  using assms by (auto simp: CharacterSplitter_init_def Let_def split: option.splits if_splits)

lemma split_document_closed:
  assumes "0 < cs_chunk_size self" and "0 \<le> cs_chunk_overlap self"
    and "cs_chunk_overlap self < cs_chunk_size self"
  shows "split_document uuid4 self d g =
         Some (map (\<lambda>k. chunk_doc d (int k) (int k * (cs_chunk_size self - cs_chunk_overlap self))
                         (min (int k * (cs_chunk_size self - cs_chunk_overlap self) + cs_chunk_size self)
                              (int (length (content d))))
                         (fst (uuid4 ((next_state uuid4 ^^ k) g))))
                 [0..<window_count (cs_chunk_size self - cs_chunk_overlap self) (int (length (content d))) 0],
               (next_state uuid4 ^^ window_count (cs_chunk_size self - cs_chunk_overlap self)
                                      (int (length (content d))) 0) g)"
proof (cases "content d = []")
  case True
  have "window_count (cs_chunk_size self - cs_chunk_overlap self) (int (length (content d))) 0 = 0"
    using True assms by (intro window_count_stop) auto
  then show ?thesis using True by (simp add: split_document_def)
next
  case False
  then show ?thesis
    using split_document_loop_closed[OF assms, of uuid4 d 0 0 "[]" g]
    by (simp add: split_document_def)
qed

lemma offsets_chunk_doc [simp]:
  "start_offset (chunk_doc d q s e i) = s" "end_offset (chunk_doc d q s e i) = e"
  "dict_get (metadata (chunk_doc d q s e i)) ''chunk_start_index'' = VInt s"
  "dict_get (metadata (chunk_doc d q s e i)) ''chunk_end_index'' = VInt e"
  "dict_get (metadata (chunk_doc d q s e i)) ''chunk_sequence'' = VInt q"
  "dict_get (metadata (chunk_doc d q s e i)) ''original_doc_id'' = VStr (doc_id d)"
  by (simp_all add: start_offset_def end_offset_def chunk_doc_def chunk_metadata_def dict_get_def update_conv')

lemma fields_chunk_doc [simp]:
  "content (chunk_doc d q s e i) = py_slice (content d) s e"
  "doc_id (chunk_doc d q s e i) = i"
  "tags (chunk_doc d q s e i) = tags d"
  "source (chunk_doc d q s e i) = Some (chunk_source d q)"
  "(chunk_doc d q s e i)\<lparr>doc_id := j\<rparr> = chunk_doc d q s e j"
  by (simp_all add: chunk_doc_def)

lemma nth_map_upt0: "i < m \<Longrightarrow> map f [0..<m] ! i = f i"
  by simp

lemma last_map_upt0: "0 < m \<Longrightarrow> last (map f [0..<m]) = f (m - 1)"
  by (cases m) simp_all

lemma window_count_last:
  assumes "0 < step" and "0 < window_count step n 0"
  shows "int (window_count step n 0 - 1) * step < n \<and> n \<le> int (window_count step n 0 - 1) * step + step"
proof -
  obtain k where k: "window_count step n 0 = Suc k"
    using assms(2) by (cases "window_count step n 0") auto
  have "k < window_count step n 0" using k by simp
  then have lt: "int k * step < n" using window_count_iff[OF assms(1), of k n 0] by simp
  have "\<not> Suc k < window_count step n 0" using k by simp
  then have "\<not> int (Suc k) * step < n" using window_count_iff[OF assms(1), of "Suc k" n 0] by simp
  then have ge: "n \<le> int k * step + step" by (simp add: algebra_simps)
  show ?thesis using lt ge by (simp add: k)
qed

lemma py_slice_all: "py_slice xs 0 (int (length xs)) = xs"
  by (simp add: py_slice_def slice_bound_def)

lemma window_cover:
  assumes "0 < step" and "step \<le> sz"
  shows "(\<Union>k \<in> {0..<window_count step n 0}. {int k * step ..< min (int k * step + sz) n}) = {0..<n}"
proof (rule set_eqI, rule iffI)
  fix x
  assume "x \<in> (\<Union>k \<in> {0..<window_count step n 0}. {int k * step ..< min (int k * step + sz) n})"
  then obtain k where "int k * step \<le> x" and "x < n" by auto
  moreover have "0 \<le> int k * step" using assms(1) by simp
  ultimately show "x \<in> {0..<n}" by simp
next
  fix x
  assume "x \<in> {0..<n}"
  then have x: "0 \<le> x" "x < n" by auto
  let ?k = "nat (x div step)"
  have k: "int ?k = x div step" using x assms(1) by (simp add: pos_imp_zdiv_nonneg_iff)
  have dm: "x = x div step * step + x mod step" by simp
  have m0: "0 \<le> x mod step" and m1: "x mod step < step" using assms(1) by simp_all
  have lo: "int ?k * step \<le> x"
    unfolding k using dm m0 by linarith
  have hi: "x < int ?k * step + step"
    unfolding k using dm m1 by linarith
  have "?k < window_count step n 0"
    using window_count_iff[OF assms(1), of ?k n 0] lo x by simp
  moreover have "x \<in> {int ?k * step ..< min (int ?k * step + sz) n}"
    using lo hi x assms(2) by simp
  ultimately show "x \<in> (\<Union>k \<in> {0..<window_count step n 0}. {int k * step ..< min (int k * step + sz) n})"
    by (intro UN_I[of ?k]) auto
qed


lemma window_count_single:
  assumes "0 < step" and "0 < n" and "n \<le> step"
  shows "window_count step n 0 = 1"
  using window_count_go[OF assms(1), of 0 n] window_count_stop[OF assms(1), of n step] assms by simp




section \<open>Lemmas on the flattened metadata\<close>

lemma set_update_subset: "set (AList.update k v al) \<subseteq> insert (k, v) (set al)"
  by (induction al) auto

lemma join_sorted_Inr:
  "join_sorted vs = Inr s \<Longrightarrow> \<exists>ss. str_elems vs = Some ss \<and> s = join '','' (sort ss)"
  by (cases "str_elems vs") (simp_all add: join_sorted_def)

lemma flatten_metadata_cases:
  assumes "flatten_metadata doc text_key id_key = Inr md"
  shows "md = filter (\<lambda>(k, v). k \<notin> set [text_key, id_key] \<and> is_scalar v) doc \<or>
         (\<exists>vs s. (map_of doc ''tags'' = Some (VList vs) \<or> map_of doc ''tags'' = Some (VSet vs)) \<and>
                 join_sorted vs = Inr s \<and>
                 md = AList.update ''tags'' (VStr s)
                        (filter (\<lambda>(k, v). k \<notin> set [text_key, id_key] \<and> is_scalar v) doc))"
proof (cases "map_of doc ''tags''")
  case None
  then show ?thesis using assms by (simp add: flatten_metadata_def)
next
  case (Some t)
  show ?thesis
  proof (cases t)
    case (VList vs)
    then show ?thesis using assms Some
      by (cases "join_sorted vs") (simp_all add: flatten_metadata_def)
  next
    case (VSet vs)
    then show ?thesis using assms Some
      by (cases "join_sorted vs") (simp_all add: flatten_metadata_def)
  qed (use assms Some in \<open>simp_all add: flatten_metadata_def\<close>)
qed

lemma flatten_metadata_scalar:
  assumes "flatten_metadata doc text_key id_key = Inr md" and "(k, v) \<in> set md"
  shows "is_scalar v"
proof -
  define base where "base = filter (\<lambda>(k, v). k \<notin> set [text_key, id_key] \<and> is_scalar v) doc"
  have base: "is_scalar v'" if "(k', v') \<in> set base" for k' v'
    using that unfolding base_def by simp
  from flatten_metadata_cases[OF assms(1)]
  consider "md = base" | s where "md = AList.update ''tags'' (VStr s) base"
    unfolding base_def by blast
  then show ?thesis
  proof cases
    case 1
    then show ?thesis using assms(2) base by blast
  next
    case 2
    then have "(k, v) \<in> insert (''tags'', VStr s) (set base)"
      using assms(2) set_update_subset[of "''tags''" "VStr s" base] by blast
    then consider "v = VStr s" | "(k, v) \<in> set base" by blast
    then show ?thesis
    proof cases
      case 1
      then show ?thesis by simp
    next
      case 2
      then show ?thesis by (rule base)
    qed
  qed
qed

lemma map_of_filter_distinct:
  assumes "distinct (map fst al)"
  shows "map_of (filter Q al) key = Some w \<longleftrightarrow> map_of al key = Some w \<and> Q (key, w)"
  using assms
proof (induction al)
  case Nil
  show ?case by simp
next
  case (Cons x al)
  obtain a b where x: "x = (a, b)" by (cases x)
  have na: "a \<notin> fst ` set al" using Cons.prems x by simp
  then have nf: "a \<notin> fst ` set (filter Q al)" by force
  have m1: "map_of al a = None" using na by (simp add: map_of_eq_None_iff)
  have m2: "map_of (filter Q al) a = None" using nf by (simp add: map_of_eq_None_iff)
  have IH: "map_of (filter Q al) key = Some w \<longleftrightarrow> map_of al key = Some w \<and> Q (key, w)"
    using Cons by simp
  show ?case
  proof (cases "key = a")
    case True
    then show ?thesis using x m1 m2 by auto
  next
    case False
    then show ?thesis using x IH by simp
  qed
qed

lemma flatten_metadata_tags:
  assumes "flatten_metadata doc text_key id_key = Inr md"
    and "map_of doc ''tags'' = Some (VList vs) \<or> map_of doc ''tags'' = Some (VSet vs)"
  shows "\<exists>ss. str_elems vs = Some ss \<and>
              md = AList.update ''tags'' (VStr (join '','' (sort ss)))
                     (filter (\<lambda>(k, v). k \<notin> set [text_key, id_key] \<and> is_scalar v) doc)"
proof -
  obtain s where s: "join_sorted vs = Inr s"
    and md: "md = AList.update ''tags'' (VStr s)
                    (filter (\<lambda>(k, v). k \<notin> set [text_key, id_key] \<and> is_scalar v) doc)"
    using assms by (cases "join_sorted vs") (auto simp: flatten_metadata_def)
  from join_sorted_Inr[OF s] md show ?thesis by blast
qed

lemma flatten_metadata_plain:
  assumes "flatten_metadata doc text_key id_key = Inr md"
    and "\<forall>vs. map_of doc ''tags'' \<noteq> Some (VList vs) \<and> map_of doc ''tags'' \<noteq> Some (VSet vs)"
  shows "md = filter (\<lambda>(k, v). k \<notin> set [text_key, id_key] \<and> is_scalar v) doc"
  using flatten_metadata_cases[OF assms(1)] assms(2) by blast

lemma collect_documents_metadatas:
  "collect_documents str_of text_key id_key docs ids0 texts0 metas0 = Inr (ids1, texts1, metas1) \<Longrightarrow>
   map Inr metas1 =
     map Inr metas0 @
     map (\<lambda>doc. flatten_metadata doc text_key id_key)
         (filter (\<lambda>doc. truthy (dict_get doc id_key) \<and> truthy (dict_get doc text_key)) docs)"
proof (induction docs arbitrary: ids0 texts0 metas0)
  case Nil
  then show ?case by simp
next
  case (Cons doc docs)
  show ?case
  proof (cases "truthy (dict_get doc id_key) \<and> truthy (dict_get doc text_key)")
    case False
    then show ?thesis using Cons by (auto simp: Let_def)
  next
    case True
    then obtain md where md: "flatten_metadata doc text_key id_key = Inr md"
      using Cons.prems by (auto simp: Let_def split: sum.splits)
    have "collect_documents str_of text_key id_key docs (ids0 @ [str_of (dict_get doc id_key)])
            (texts0 @ [dict_get doc text_key]) (metas0 @ [md]) = Inr (ids1, texts1, metas1)"
      using Cons.prems True md by (simp add: Let_def)
    from Cons.IH[OF this] show ?thesis using True md by simp
  qed
qed

lemma add_documents_trace:
  assumes "call \<in> set (snd (add_documents encode upsert str_of docs text_key id_key))"
  shows "\<exists>ids1 texts1. collect_documents str_of text_key id_key docs [] [] [] =
            Inr (ids1, texts1, metadatas call)"
  using assms
  by (auto simp: add_documents_def Let_def split: if_splits sum.splits option.splits prod.splits)

section \<open>Termination and the bound on chunks\<close>

text \<open>
  C8. For every text and every chunker with a positive chunk size, \<open>_simple_chunking\<close>
  returns, and so does \<open>split_text\<close> on every value. No condition on the overlap is needed:
  when \<open>chunk_size - chunk_overlap\<close> would not move the window forward, the loop advances by
  \<open>chunk_size\<close>.
\<close>

theorem simple_chunking_terminates:
  assumes "0 < chunk_size self"
  shows "(\<exists>chunks. simple_chunking self text = Some chunks) \<and> (\<exists>chunks. split_text self v = Some chunks)"
proof
  show "\<exists>chunks. simple_chunking self text = Some chunks"
    using assms by (simp add: simple_chunking_def simple_chunking_loop_closed)
  show "\<exists>chunks. split_text self v = Some chunks"
    using assms by (cases v) (simp_all add: split_text_def simple_chunking_def simple_chunking_loop_closed)
qed

theorem simple_chunking_terminates_witness:
  "0 < chunk_size \<lparr>chunk_size = 10, chunk_overlap = 10, chunking_method = ''simple'', splitter = None\<rparr> \<and>
   (\<exists>chunks. simple_chunking \<lparr>chunk_size = 10, chunk_overlap = 10, chunking_method = ''simple'', splitter = None\<rparr>
               ''abcdefghijklmnopqrstuvwxy'' = Some chunks) \<and>
   (\<exists>chunks. split_text \<lparr>chunk_size = 10, chunk_overlap = 10, chunking_method = ''simple'', splitter = None\<rparr>
               (VStr ''abcdefghijklmnopqrstuvwxy'') = Some chunks)"
  using simple_chunking_terminates
    [of "\<lparr>chunk_size = 10, chunk_overlap = 10, chunking_method = ''simple'', splitter = None\<rparr>"
        "''abcdefghijklmnopqrstuvwxy''" "VStr ''abcdefghijklmnopqrstuvwxy''"]
  by simp

text \<open>
  C9. For every non-empty text and every chunker with a chunk size of at least 1 and an
  overlap below the chunk size, \<open>split_text\<close> returns, and every chunk it returns is a
  non-empty string of at most \<open>chunk_size\<close> characters.
\<close>

theorem split_text_chunk_bound:
  assumes "text \<noteq> []" and "1 \<le> chunk_size self" and "chunk_overlap self < chunk_size self"
  shows "\<exists>chunks. split_text self (VStr text) = Some chunks \<and>
           (\<forall>c \<in> set chunks. c \<noteq> [] \<and> int (length c) \<le> chunk_size self)"
proof -
  let ?step = "advance (chunk_size self) (chunk_overlap self)"
  let ?n = "int (length text)"
  have pos: "0 < chunk_size self" using assms(2) by simp
  have sp: "0 < ?step" using pos by (rule advance_pos)
  have win: "py_slice text (int k * ?step) (min (int k * ?step + chunk_size self) ?n) \<noteq> [] \<and>
             int (length (py_slice text (int k * ?step) (min (int k * ?step + chunk_size self) ?n))) \<le> chunk_size self"
    if "k < window_count ?step ?n 0" for k
  proof -
    have lt: "int k * ?step < ?n" using that window_count_iff[OF sp, of k ?n 0] by simp
    have ge: "0 \<le> int k * ?step" using sp by simp
    show ?thesis
      unfolding py_slice_window[OF ge lt pos] using lt ge pos by auto
  qed
  show ?thesis
    unfolding split_text_closed[OF pos] using assms win by auto
qed


theorem split_text_chunk_bound_witness:
  "''abcdefghijklmnopqrstuvwxy'' \<noteq> [] \<and>
   1 \<le> chunk_size \<lparr>chunk_size = 10, chunk_overlap = 3, chunking_method = ''simple'', splitter = None\<rparr> \<and>
   (\<exists>chunks. split_text \<lparr>chunk_size = 10, chunk_overlap = 3, chunking_method = ''simple'', splitter = None\<rparr>
               (VStr ''abcdefghijklmnopqrstuvwxy'') = Some chunks \<and>
            (\<forall>c \<in> set chunks. c \<noteq> [] \<and> int (length c) \<le> 10))"
  using split_text_chunk_bound
    [of "''abcdefghijklmnopqrstuvwxy''"
        "\<lparr>chunk_size = 10, chunk_overlap = 3, chunking_method = ''simple'', splitter = None\<rparr>"]
  by simp

section \<open>The segments of CharacterSplitter\<close>

text \<open>
  C1, as the code has it. The chunk is built by \<open>Document(content=..., metadata=...,
  source=..., tags=...)\<close> with no id, so its id is a fresh \<open>uuid4\<close> (the source says
  "Generating new UUIDs for chunks"): it is not derived from the parent's id and the
  sequence number. For every document and every configuration the constructor accepts,
  two runs of \<open>split_document\<close>, whatever the generators and their states, return segment
  lists that are equal once the ids are blanked (same content, metadata with the four
  lineage keys, source and tags), and the id of the k-th segment of a run is the k-th
  draw of that run.
\<close>

theorem split_document_equal_up_to_ids:
  assumes "CharacterSplitter_init cfg = Inr self"
  shows "\<exists>docs g1 docs' h1.
     split_document uuid4 self d g = Some (docs, g1) \<and>
     split_document uuid4' self d h = Some (docs', h1) \<and>
     map (\<lambda>c. c\<lparr>doc_id := []\<rparr>) docs = map (\<lambda>c. c\<lparr>doc_id := []\<rparr>) docs' \<and>
     map doc_id docs = map (\<lambda>k. fst (uuid4 ((next_state uuid4 ^^ k) g))) [0..<length docs] \<and>
     map doc_id docs' = map (\<lambda>k. fst (uuid4' ((next_state uuid4' ^^ k) h))) [0..<length docs']"
proof -
  note v = CharacterSplitter_init_valid[OF assms]
  from v have a: "0 < cs_chunk_size self" and b: "0 \<le> cs_chunk_overlap self"
    and c: "cs_chunk_overlap self < cs_chunk_size self" by auto
  show ?thesis
    unfolding split_document_closed[OF a b c] by (simp add: comp_def)
qed


theorem split_document_equal_up_to_ids_witness:
  "CharacterSplitter_init (Some [(''chunk_size'', VInt 2), (''chunk_overlap'', VInt 0)]) =
     Inr \<lparr>config = [(''chunk_size'', VInt 2), (''chunk_overlap'', VInt 0)],
          cs_chunk_size = 2, cs_chunk_overlap = 0\<rparr> \<and>
   (\<exists>docs g1 docs' h1.
     split_document draw \<lparr>config = [(''chunk_size'', VInt 2), (''chunk_overlap'', VInt 0)],
          cs_chunk_size = 2, cs_chunk_overlap = 0\<rparr>
        \<lparr>doc_id = ''d1'', content = ''abc'', metadata = [], source = None, tags = [],
         embedding = None, processed_at = None\<rparr> [''u1'', ''u2'', ''u3'', ''u4''] = Some (docs, g1) \<and>
     split_document draw \<lparr>config = [(''chunk_size'', VInt 2), (''chunk_overlap'', VInt 0)],
          cs_chunk_size = 2, cs_chunk_overlap = 0\<rparr>
        \<lparr>doc_id = ''d1'', content = ''abc'', metadata = [], source = None, tags = [],
         embedding = None, processed_at = None\<rparr> [''u3'', ''u4''] = Some (docs', h1) \<and>
     map (\<lambda>c. c\<lparr>doc_id := []\<rparr>) docs = map (\<lambda>c. c\<lparr>doc_id := []\<rparr>) docs')"
proof -
  have h: "CharacterSplitter_init (Some [(''chunk_size'', VInt 2), (''chunk_overlap'', VInt 0)]) =
     Inr \<lparr>config = [(''chunk_size'', VInt 2), (''chunk_overlap'', VInt 0)],
          cs_chunk_size = 2, cs_chunk_overlap = 0\<rparr>"
    by (simp add: CharacterSplitter_init_def)
  show ?thesis
    using h split_document_equal_up_to_ids [OF h, of draw _ "[''u1'', ''u2'', ''u3'', ''u4'']" draw "[''u3'', ''u4'']"]
    by blast
qed

text \<open>
  C1 as stated fails: the same document split twice, the second run continuing with the
  generator where the first left it, gets the ids \<open>u1, u2\<close> and then \<open>u3, u4\<close>.
\<close>

theorem split_document_ids_counterexample:
  "map_option (map doc_id \<circ> fst)
     (split_document draw \<lparr>config = [], cs_chunk_size = 2, cs_chunk_overlap = 0\<rparr>
        \<lparr>doc_id = ''d1'', content = ''abc'', metadata = [], source = None, tags = [],
         embedding = None, processed_at = None\<rparr> [''u1'', ''u2'', ''u3'', ''u4'']) = Some [''u1'', ''u2''] \<and>
   map_option snd
     (split_document draw \<lparr>config = [], cs_chunk_size = 2, cs_chunk_overlap = 0\<rparr>
        \<lparr>doc_id = ''d1'', content = ''abc'', metadata = [], source = None, tags = [],
         embedding = None, processed_at = None\<rparr> [''u1'', ''u2'', ''u3'', ''u4'']) = Some [''u3'', ''u4''] \<and>
   map_option (map doc_id \<circ> fst)
     (split_document draw \<lparr>config = [], cs_chunk_size = 2, cs_chunk_overlap = 0\<rparr>
        \<lparr>doc_id = ''d1'', content = ''abc'', metadata = [], source = None, tags = [],
         embedding = None, processed_at = None\<rparr> [''u3'', ''u4'']) = Some [''u3'', ''u4'']"
  by code_simp

text \<open>
  C2, as the code has it. For every document and every configuration the constructor
  accepts: segment \<open>i\<close> starts at \<open>i * (chunk_size - chunk_overlap)\<close> and ends at
  \<open>min(start + chunk_size, len(content))\<close>, both recorded in its metadata; consecutive
  segments start \<open>chunk_size - chunk_overlap\<close> apart; a consecutive pair whose first
  segment has the full width \<open>chunk_size\<close> overlaps by exactly \<open>chunk_overlap\<close>; the loop
  runs while the start is below \<open>len(content)\<close>, so every segment starts below it, the
  last one ends at \<open>len(content)\<close> and the start after it would not be below
  \<open>len(content)\<close>. The chunks of \<open>DocumentChunker._simple_chunking\<close> with the same
  parameters are the contents of these segments.
\<close>

theorem split_document_offsets:
  assumes "CharacterSplitter_init cfg = Inr self"
  shows "\<exists>docs g'. split_document uuid4 self d g = Some (docs, g') \<and>
     (\<forall>i < length docs.
        dict_get (metadata (docs ! i)) ''chunk_start_index'' = VInt (start_offset (docs ! i)) \<and>
        dict_get (metadata (docs ! i)) ''chunk_end_index'' = VInt (end_offset (docs ! i)) \<and>
        start_offset (docs ! i) = int i * (cs_chunk_size self - cs_chunk_overlap self) \<and>
        end_offset (docs ! i) = min (start_offset (docs ! i) + cs_chunk_size self) (int (length (content d))) \<and>
        start_offset (docs ! i) < int (length (content d))) \<and>
     (\<forall>i. Suc i < length docs \<longrightarrow>
        start_offset (docs ! Suc i) = start_offset (docs ! i) + (cs_chunk_size self - cs_chunk_overlap self)) \<and>
     (\<forall>i. Suc i < length docs \<longrightarrow>
        end_offset (docs ! i) = start_offset (docs ! i) + cs_chunk_size self \<longrightarrow>
        end_offset (docs ! i) - start_offset (docs ! Suc i) = cs_chunk_overlap self) \<and>
     (docs \<noteq> [] \<longrightarrow>
        end_offset (last docs) = int (length (content d)) \<and>
        int (length (content d)) \<le> start_offset (last docs) + (cs_chunk_size self - cs_chunk_overlap self)) \<and>
     simple_chunking \<lparr>chunk_size = cs_chunk_size self, chunk_overlap = cs_chunk_overlap self,
                      chunking_method = ''simple'', splitter = None\<rparr> (content d) = Some (map content docs)"
proof -
  note v = CharacterSplitter_init_valid[OF assms]
  from v have a: "0 < cs_chunk_size self" and b: "0 \<le> cs_chunk_overlap self"
    and c: "cs_chunk_overlap self < cs_chunk_size self" by auto
  let ?sz = "cs_chunk_size self"
  let ?step = "cs_chunk_size self - cs_chunk_overlap self"
  let ?n = "int (length (content d))"
  let ?m = "window_count ?step ?n 0"
  let ?f = "\<lambda>k. chunk_doc d (int k) (int k * ?step) (min (int k * ?step + ?sz) ?n)
                 (fst (uuid4 ((next_state uuid4 ^^ k) g)))"
  let ?docs = "map ?f [0..<?m]"
  have sp: "0 < ?step" using c by simp
  have adv: "advance ?sz (cs_chunk_overlap self) = ?step" using c by (simp add: advance_def)
  have eq: "split_document uuid4 self d g = Some (?docs, (next_state uuid4 ^^ ?m) g)"
    by (rule split_document_closed[OF a b c])
  have p1: "\<forall>i < length ?docs.
        dict_get (metadata (?docs ! i)) ''chunk_start_index'' = VInt (start_offset (?docs ! i)) \<and>
        dict_get (metadata (?docs ! i)) ''chunk_end_index'' = VInt (end_offset (?docs ! i)) \<and>
        start_offset (?docs ! i) = int i * ?step \<and>
        end_offset (?docs ! i) = min (start_offset (?docs ! i) + ?sz) ?n \<and>
        start_offset (?docs ! i) < ?n"
    using window_count_iff[OF sp, of _ ?n 0] by simp
  have p2: "\<forall>i. Suc i < length ?docs \<longrightarrow> start_offset (?docs ! Suc i) = start_offset (?docs ! i) + ?step"
    by (simp add: algebra_simps)
  have p3: "\<forall>i. Suc i < length ?docs \<longrightarrow>
        end_offset (?docs ! i) = start_offset (?docs ! i) + ?sz \<longrightarrow>
        end_offset (?docs ! i) - start_offset (?docs ! Suc i) = cs_chunk_overlap self"
    by (simp add: algebra_simps)
  have p4: "?docs \<noteq> [] \<longrightarrow> end_offset (last ?docs) = ?n \<and> ?n \<le> start_offset (last ?docs) + ?step"
  proof
    assume "?docs \<noteq> []"
    then have m0: "0 < ?m" by simp
    have l: "last ?docs = ?f (?m - 1)" using m0 by (rule last_map_upt0)
    from window_count_last[OF sp m0] b show "end_offset (last ?docs) = ?n \<and> ?n \<le> start_offset (last ?docs) + ?step"
      unfolding l by (simp add: min_def)
  qed
  have p5: "simple_chunking \<lparr>chunk_size = ?sz, chunk_overlap = cs_chunk_overlap self,
                      chunking_method = ''simple'', splitter = None\<rparr> (content d) = Some (map content ?docs)"
    using a by (simp add: simple_chunking_def simple_chunking_loop_closed adv comp_def)
  show ?thesis
    by (intro exI[of _ ?docs] exI[of _ "(next_state uuid4 ^^ ?m) g"] conjI eq p1 p2 p3 p4 p5)
qed

theorem split_document_offsets_witness:
  "CharacterSplitter_init (Some [(''chunk_size'', VInt 10), (''chunk_overlap'', VInt 3)]) =
     Inr \<lparr>config = [(''chunk_size'', VInt 10), (''chunk_overlap'', VInt 3)],
          cs_chunk_size = 10, cs_chunk_overlap = 3\<rparr> \<and>
   (\<exists>docs g'.
      split_document draw \<lparr>config = [(''chunk_size'', VInt 10), (''chunk_overlap'', VInt 3)],
          cs_chunk_size = 10, cs_chunk_overlap = 3\<rparr>
        \<lparr>doc_id = ''d1'', content = ''abcdefghijklmnopqrstuvwxy'', metadata = [], source = None,
         tags = [], embedding = None, processed_at = None\<rparr> [] = Some (docs, g') \<and>
      (\<forall>i. Suc i < length docs \<longrightarrow> start_offset (docs ! Suc i) = start_offset (docs ! i) + 7) \<and>
      (\<forall>i. Suc i < length docs \<longrightarrow> end_offset (docs ! i) = start_offset (docs ! i) + 10 \<longrightarrow>
           end_offset (docs ! i) - start_offset (docs ! Suc i) = 3) \<and>
      (docs \<noteq> [] \<longrightarrow> end_offset (last docs) = 25))"
proof -
  have h: "CharacterSplitter_init (Some [(''chunk_size'', VInt 10), (''chunk_overlap'', VInt 3)]) =
     Inr \<lparr>config = [(''chunk_size'', VInt 10), (''chunk_overlap'', VInt 3)],
          cs_chunk_size = 10, cs_chunk_overlap = 3\<rparr>"
    by (simp add: CharacterSplitter_init_def)
  from split_document_offsets [OF h, of draw
        "\<lparr>doc_id = ''d1'', content = ''abcdefghijklmnopqrstuvwxy'', metadata = [], source = None,
         tags = [], embedding = None, processed_at = None\<rparr>" "[]"]
  obtain docs g' where
    "split_document draw \<lparr>config = [(''chunk_size'', VInt 10), (''chunk_overlap'', VInt 3)],
          cs_chunk_size = 10, cs_chunk_overlap = 3\<rparr>
        \<lparr>doc_id = ''d1'', content = ''abcdefghijklmnopqrstuvwxy'', metadata = [], source = None,
         tags = [], embedding = None, processed_at = None\<rparr> [] = Some (docs, g')"
    and "\<forall>i. Suc i < length docs \<longrightarrow> start_offset (docs ! Suc i) = start_offset (docs ! i) + 7"
    and "\<forall>i. Suc i < length docs \<longrightarrow> end_offset (docs ! i) = start_offset (docs ! i) + 10 \<longrightarrow>
           end_offset (docs ! i) - start_offset (docs ! Suc i) = 3"
    and "docs \<noteq> [] \<longrightarrow> end_offset (last docs) = 25"
    by (elim exE conjE) simp
  then show ?thesis using h by blast
qed

text \<open>
  C2 as stated fails. With \<open>chunk_size = 10\<close> and \<open>chunk_overlap = 8\<close> a content of 11
  characters gives the six segments below: the second already ends at \<open>len(content)\<close> and
  four more follow, and the second and third, neither of them the last, overlap by
  \<open>11 - 4 = 7\<close>, not 8.
\<close>

theorem split_document_overlap_counterexample:
  "map_option (map offsets \<circ> fst)
     (split_document draw \<lparr>config = [], cs_chunk_size = 10, cs_chunk_overlap = 8\<rparr>
        \<lparr>doc_id = ''d1'', content = ''abcdefghijk'', metadata = [], source = None, tags = [],
         embedding = None, processed_at = None\<rparr> []) =
   Some [(0, 10), (2, 11), (4, 11), (6, 11), (8, 11), (10, 11)]"
  by code_simp

text \<open>
  C3, as the code has it. For every document and every configuration the constructor
  accepts, the ranges \<open>[start, end)\<close> of the segments of \<open>split_document\<close> cover exactly
  \<open>[0, len(content))\<close>. An empty content gives no segment (the guard \<open>if not content\<close>), and
  a non-empty content of at most \<open>chunk_size - chunk_overlap\<close> characters gives the single
  segment \<open>[0, len(content))\<close> holding the whole content. \<open>DocumentChunker.split_text\<close> with
  the same parameters returns the whole text as its only chunk when the text is no longer
  than \<open>chunk_size\<close>, and the contents of these segments otherwise.
\<close>

theorem split_document_coverage:
  assumes "CharacterSplitter_init cfg = Inr self"
  shows "\<exists>docs g'. split_document uuid4 self d g = Some (docs, g') \<and>
     (\<Union>c \<in> set docs. {start_offset c ..< end_offset c}) = {0 ..< int (length (content d))} \<and>
     (content d = [] \<longrightarrow> docs = []) \<and>
     (content d \<noteq> [] \<and> int (length (content d)) \<le> cs_chunk_size self - cs_chunk_overlap self \<longrightarrow>
        map offsets docs = [(0, int (length (content d)))] \<and> map content docs = [content d]) \<and>
     split_text \<lparr>chunk_size = cs_chunk_size self, chunk_overlap = cs_chunk_overlap self,
                 chunking_method = ''simple'', splitter = None\<rparr> (VStr (content d)) =
       Some (if int (length (content d)) \<le> cs_chunk_size self then [content d] else map content docs)"
proof -
  note v = CharacterSplitter_init_valid[OF assms]
  from v have a: "0 < cs_chunk_size self" and b: "0 \<le> cs_chunk_overlap self"
    and c: "cs_chunk_overlap self < cs_chunk_size self" by auto
  let ?sz = "cs_chunk_size self"
  let ?step = "cs_chunk_size self - cs_chunk_overlap self"
  let ?n = "int (length (content d))"
  let ?m = "window_count ?step ?n 0"
  let ?f = "\<lambda>k. chunk_doc d (int k) (int k * ?step) (min (int k * ?step + ?sz) ?n)
                 (fst (uuid4 ((next_state uuid4 ^^ k) g)))"
  let ?docs = "map ?f [0..<?m]"
  have sp: "0 < ?step" using c by simp
  have le: "?step \<le> ?sz" using b by simp
  have adv: "advance ?sz (cs_chunk_overlap self) = ?step" using c by (simp add: advance_def)
  have eq: "split_document uuid4 self d g = Some (?docs, (next_state uuid4 ^^ ?m) g)"
    by (rule split_document_closed[OF a b c])
  have p1: "(\<Union>c \<in> set ?docs. {start_offset c ..< end_offset c}) = {0 ..< ?n}"
    using window_cover[OF sp le, of ?n] by simp
  have p2: "content d = [] \<longrightarrow> ?docs = []"
    using window_count_stop[OF sp, of ?n 0] by simp
  have p3: "content d \<noteq> [] \<and> ?n \<le> ?step \<longrightarrow>
        map offsets ?docs = [(0, ?n)] \<and> map content ?docs = [content d]"
  proof
    assume h: "content d \<noteq> [] \<and> ?n \<le> ?step"
    then have "0 < ?n" by simp
    then have m1: "?m = 1" using h sp by (intro window_count_single) auto
    have "min ?sz ?n = ?n" using h le by simp
    then show "map offsets ?docs = [(0, ?n)] \<and> map content ?docs = [content d]"
      by (simp add: m1 offsets_def py_slice_all)
  qed
  have p4: "split_text \<lparr>chunk_size = ?sz, chunk_overlap = cs_chunk_overlap self,
                 chunking_method = ''simple'', splitter = None\<rparr> (VStr (content d)) =
       Some (if ?n \<le> ?sz then [content d] else map content ?docs)"
    using a by (simp add: split_text_closed adv comp_def)
  show ?thesis
    by (intro exI[of _ ?docs] exI[of _ "(next_state uuid4 ^^ ?m) g"] conjI eq p1 p2 p3 p4)
qed

theorem split_document_coverage_witness:
  "CharacterSplitter_init (Some [(''chunk_size'', VInt 10), (''chunk_overlap'', VInt 3)]) =
     Inr \<lparr>config = [(''chunk_size'', VInt 10), (''chunk_overlap'', VInt 3)],
          cs_chunk_size = 10, cs_chunk_overlap = 3\<rparr> \<and>
   (\<exists>docs g'.
      split_document draw \<lparr>config = [(''chunk_size'', VInt 10), (''chunk_overlap'', VInt 3)],
          cs_chunk_size = 10, cs_chunk_overlap = 3\<rparr>
        \<lparr>doc_id = ''d1'', content = ''abcdefghijklmnopqrstuvwxy'', metadata = [], source = None,
         tags = [], embedding = None, processed_at = None\<rparr> [] = Some (docs, g') \<and>
      (\<Union>c \<in> set docs. {start_offset c ..< end_offset c}) = {0 ..< 25})"
proof -
  have h: "CharacterSplitter_init (Some [(''chunk_size'', VInt 10), (''chunk_overlap'', VInt 3)]) =
     Inr \<lparr>config = [(''chunk_size'', VInt 10), (''chunk_overlap'', VInt 3)],
          cs_chunk_size = 10, cs_chunk_overlap = 3\<rparr>"
    by (simp add: CharacterSplitter_init_def)
  from split_document_coverage [OF h, of draw
        "\<lparr>doc_id = ''d1'', content = ''abcdefghijklmnopqrstuvwxy'', metadata = [], source = None,
         tags = [], embedding = None, processed_at = None\<rparr>" "[]"]
  obtain docs g' where
    "split_document draw \<lparr>config = [(''chunk_size'', VInt 10), (''chunk_overlap'', VInt 3)],
          cs_chunk_size = 10, cs_chunk_overlap = 3\<rparr>
        \<lparr>doc_id = ''d1'', content = ''abcdefghijklmnopqrstuvwxy'', metadata = [], source = None,
         tags = [], embedding = None, processed_at = None\<rparr> [] = Some (docs, g')"
    and "(\<Union>c \<in> set docs. {start_offset c ..< end_offset c}) = {0 ..< 25}"
    by (elim exE conjE) simp
  then show ?thesis using h by blast
qed

text \<open>
  C3 as stated fails for \<open>split_document\<close>: with \<open>chunk_size = 10\<close> and \<open>chunk_overlap = 3\<close> an
  empty content gives no segment, and a content of 10 characters gives two.
\<close>

theorem split_document_single_segment_counterexample:
  "map_option (map offsets \<circ> fst)
     (split_document draw \<lparr>config = [], cs_chunk_size = 10, cs_chunk_overlap = 3\<rparr>
        \<lparr>doc_id = ''d1'', content = [], metadata = [], source = None, tags = [],
         embedding = None, processed_at = None\<rparr> []) = Some [] \<and>
   map_option (map offsets \<circ> fst)
     (split_document draw \<lparr>config = [], cs_chunk_size = 10, cs_chunk_overlap = 3\<rparr>
        \<lparr>doc_id = ''d1'', content = ''abcdefghij'', metadata = [], source = None, tags = [],
         embedding = None, processed_at = None\<rparr> []) = Some [(0, 10), (7, 10)]"
  by code_simp




text \<open>
  C6, as the code has it. \<open>CharacterSplitter.__init__\<close> raises \<open>ValueError\<close> for every
  \<open>chunk_size\<close> that is not a positive integer; for every document and every configuration
  it accepts, \<open>split_document\<close> returns, and returns the empty list for an empty content.
  \<open>DocumentChunker.split_text\<close>, for a chunker with a chunk size that is not negative, returns
  the one-element list holding the empty string for the empty text.
\<close>

theorem splitter_failure_contract:
  "(map_of cfg ''chunk_size'' = Some v \<longrightarrow> (\<forall>sz. as_int v = Some sz \<longrightarrow> sz \<le> 0) \<longrightarrow>
      CharacterSplitter_init (Some cfg) = Inl ValueError) \<and>
   (CharacterSplitter_init cfg' = Inr self \<longrightarrow>
      (\<exists>docs g'. split_document uuid4 self d g = Some (docs, g')) \<and>
      (content d = [] \<longrightarrow> split_document uuid4 self d g = Some ([], g))) \<and>
   (fst (DocumentChunker_init csize coverlap meth) = Inr c \<longrightarrow> 0 \<le> csize \<longrightarrow>
      split_text c (VStr []) = Some [[]])"
proof (intro conjI impI)
  assume "map_of cfg ''chunk_size'' = Some v" and "\<forall>sz. as_int v = Some sz \<longrightarrow> sz \<le> 0"
  then show "CharacterSplitter_init (Some cfg) = Inl ValueError"
    by (auto simp: CharacterSplitter_init_def split: option.splits)
next
  assume h: "CharacterSplitter_init cfg' = Inr self"
  note v = CharacterSplitter_init_valid[OF h]
  from v have a: "0 < cs_chunk_size self" and b: "0 \<le> cs_chunk_overlap self"
    and c: "cs_chunk_overlap self < cs_chunk_size self" by auto
  show "\<exists>docs g'. split_document uuid4 self d g = Some (docs, g')"
    unfolding split_document_closed[OF a b c] by blast
next
  assume "content d = []"
  then show "split_document uuid4 self d g = Some ([], g)"
    by (simp add: split_document_def)
next
  assume "fst (DocumentChunker_init csize coverlap meth) = Inr c" and "0 \<le> csize"
  then show "split_text c (VStr []) = Some [[]]"
    by (auto simp: DocumentChunker_init_def split_text_def Let_def split: if_splits)
qed

theorem splitter_failure_contract_witness:
  "map_of [(''chunk_size'', VInt 0)] ''chunk_size'' = Some (VInt 0) \<and>
   as_int (VInt 0) = Some 0 \<and>
   CharacterSplitter_init (Some [(''chunk_size'', VInt 0)]) = Inl ValueError \<and>
   CharacterSplitter_init (Some [(''chunk_size'', VInt 10), (''chunk_overlap'', VInt 3)]) =
     Inr \<lparr>config = [(''chunk_size'', VInt 10), (''chunk_overlap'', VInt 3)],
          cs_chunk_size = 10, cs_chunk_overlap = 3\<rparr> \<and>
   split_document draw \<lparr>config = [(''chunk_size'', VInt 10), (''chunk_overlap'', VInt 3)],
          cs_chunk_size = 10, cs_chunk_overlap = 3\<rparr>
        \<lparr>doc_id = ''d1'', content = [], metadata = [], source = None,
         tags = [], embedding = None, processed_at = None\<rparr> [''u1''] = Some ([], [''u1'']) \<and>
   fst (DocumentChunker_init 10 3 ''simple'') =
     Inr \<lparr>chunk_size = 10, chunk_overlap = 3, chunking_method = ''simple'', splitter = None\<rparr> \<and>
   split_text \<lparr>chunk_size = 10, chunk_overlap = 3, chunking_method = ''simple'', splitter = None\<rparr>
     (VStr []) = Some [[]]"
proof -
  have h1: "map_of [(''chunk_size'', VInt 0)] ''chunk_size'' = Some (VInt 0)" by simp
  have h2: "\<forall>sz. as_int (VInt 0) = Some sz \<longrightarrow> sz \<le> 0" by simp
  have h3: "CharacterSplitter_init (Some [(''chunk_size'', VInt 10), (''chunk_overlap'', VInt 3)]) =
     Inr \<lparr>config = [(''chunk_size'', VInt 10), (''chunk_overlap'', VInt 3)],
          cs_chunk_size = 10, cs_chunk_overlap = 3\<rparr>"
    by (simp add: CharacterSplitter_init_def)
  have h4: "fst (DocumentChunker_init 10 3 ''simple'') =
     Inr \<lparr>chunk_size = 10, chunk_overlap = 3, chunking_method = ''simple'', splitter = None\<rparr>"
    by (simp add: DocumentChunker_init_def)
  have h5: "(0::int) \<le> 10" by simp
  have h6: "content \<lparr>doc_id = ''d1'', content = [], metadata = [], source = None,
         tags = [], embedding = None, processed_at = None\<rparr> = []" by simp
  from splitter_failure_contract
    [of "[(''chunk_size'', VInt 0)]" "VInt 0"
        "Some [(''chunk_size'', VInt 10), (''chunk_overlap'', VInt 3)]"
        "\<lparr>config = [(''chunk_size'', VInt 10), (''chunk_overlap'', VInt 3)],
          cs_chunk_size = 10, cs_chunk_overlap = 3\<rparr>"
        draw
        "\<lparr>doc_id = ''d1'', content = [], metadata = [], source = None,
         tags = [], embedding = None, processed_at = None\<rparr>" "[''u1'']"
        10 3 "''simple''"
        "\<lparr>chunk_size = 10, chunk_overlap = 3, chunking_method = ''simple'', splitter = None\<rparr>"]
    h1 h2 h3 h4 h5 h6
  show ?thesis by simp
qed

text \<open>
  C6 as stated fails for \<open>DocumentChunker\<close>: the empty text gives one (empty) chunk, not the
  empty list.
\<close>

theorem split_text_empty_counterexample:
  "fst (DocumentChunker_init 10 3 ''simple'') =
     Inr \<lparr>chunk_size = 10, chunk_overlap = 3, chunking_method = ''simple'', splitter = None\<rparr> \<and>
   split_text \<lparr>chunk_size = 10, chunk_overlap = 3, chunking_method = ''simple'', splitter = None\<rparr>
     (VStr []) = Some [[]]"
  by (simp add: DocumentChunker_init_def split_text_def)

section \<open>The vector index\<close>

text \<open>
  C10. For every batch passed to \<open>add_documents\<close>, with any embedding model, backend and
  key names, every metadata map of every \<open>upsert\<close> call holds only scalar values (string,
  integer, float or boolean). The maps forwarded are those of the documents of the batch
  that have an id and a text, in order. For a document (a dictionary, so with distinct
  keys) the map keeps exactly the scalar fields other than the text and the id, and a
  list- or set-valued \<open>tags\<close> field becomes the comma-joined string of its elements sorted.
  (The join raises \<open>TypeError\<close> when an element is not a string; nothing is forwarded
  then.)
\<close>

theorem add_documents_metadata_scalar:
  assumes "call \<in> set (snd (add_documents encode upsert str_of docs text_key id_key))"
  shows "(\<forall>md \<in> set (metadatas call). \<forall>(k, v) \<in> set md. is_scalar v) \<and>
         map Inr (metadatas call) =
           map (\<lambda>doc. flatten_metadata doc text_key id_key)
             (filter (\<lambda>doc. truthy (dict_get doc id_key) \<and> truthy (dict_get doc text_key)) docs) \<and>
         (\<forall>doc md. flatten_metadata doc text_key id_key = Inr md \<longrightarrow> distinct (map fst doc) \<longrightarrow>
            (\<forall>k. (k = ''tags'' \<longrightarrow>
                    (\<forall>vs. map_of doc ''tags'' \<noteq> Some (VList vs) \<and> map_of doc ''tags'' \<noteq> Some (VSet vs))) \<longrightarrow>
                 map_of md k =
                   (case map_of doc k of
                      None \<Rightarrow> None
                    | Some v \<Rightarrow> if k \<noteq> text_key \<and> k \<noteq> id_key \<and> is_scalar v then Some v else None)) \<and>
            (\<forall>vs. map_of doc ''tags'' = Some (VList vs) \<or> map_of doc ''tags'' = Some (VSet vs) \<longrightarrow>
                 (\<exists>ss. str_elems vs = Some ss \<and>
                       map_of md ''tags'' = Some (VStr (join '','' (sort ss))) \<and>
                       sorted (sort ss) \<and> mset (sort ss) = mset ss)))"
proof (intro conjI allI impI)
  obtain ids1 texts1 where c: "collect_documents str_of text_key id_key docs [] [] [] =
            Inr (ids1, texts1, metadatas call)"
    using add_documents_trace[OF assms] by blast
  note m = collect_documents_metadatas[OF c]
  show m': "map Inr (metadatas call) =
           map (\<lambda>doc. flatten_metadata doc text_key id_key)
             (filter (\<lambda>doc. truthy (dict_get doc id_key) \<and> truthy (dict_get doc text_key)) docs)"
    using m by simp
  show "\<forall>md \<in> set (metadatas call). \<forall>(k, v) \<in> set md. is_scalar v"
  proof (intro ballI)
    fix md kv
    assume md: "md \<in> set (metadatas call)" and kv: "kv \<in> set md"
    have "(Inr md :: exn + pydict) \<in> set (map Inr (metadatas call))" using md by simp
    then obtain doc where "flatten_metadata doc text_key id_key = Inr md"
      unfolding m' by auto
    from flatten_metadata_scalar[OF this, of "fst kv" "snd kv"] kv
    show "case kv of (k, v) \<Rightarrow> is_scalar v" by (simp add: case_prod_beta)
  qed
next
  fix doc md k
  assume f: "flatten_metadata doc text_key id_key = Inr md" and d: "distinct (map fst doc)"
    and k: "k = ''tags'' \<longrightarrow>
              (\<forall>vs. map_of doc ''tags'' \<noteq> Some (VList vs) \<and> map_of doc ''tags'' \<noteq> Some (VSet vs))"
  let ?base = "filter (\<lambda>(k, v). k \<notin> set [text_key, id_key] \<and> is_scalar v) doc"
  note iff = map_of_filter_distinct[OF d, of "\<lambda>(k, v). k \<notin> set [text_key, id_key] \<and> is_scalar v" k]
  have b: "map_of ?base k =
             (case map_of doc k of None \<Rightarrow> None
              | Some v \<Rightarrow> if k \<noteq> text_key \<and> k \<noteq> id_key \<and> is_scalar v then Some v else None)"
  proof (cases "map_of ?base k")
    case None
    then show ?thesis using iff by (auto split: option.splits)
  next
    case (Some w)
    then show ?thesis using iff[of w] by (auto split: option.splits)
  qed
  have "map_of md k = map_of ?base k"
  proof (cases "\<exists>vs. map_of doc ''tags'' = Some (VList vs) \<or> map_of doc ''tags'' = Some (VSet vs)")
    case True
    then obtain vs where t: "map_of doc ''tags'' = Some (VList vs) \<or> map_of doc ''tags'' = Some (VSet vs)"
      by blast
    then have "k \<noteq> ''tags''" using k by blast
    moreover from flatten_metadata_tags[OF f t] obtain s where "md = AList.update ''tags'' (VStr s) ?base"
      by blast
    ultimately show ?thesis by (simp add: update_conv')
  next
    case False
    then show ?thesis using flatten_metadata_plain[OF f] by blast
  qed
  then show "map_of md k =
             (case map_of doc k of None \<Rightarrow> None
              | Some v \<Rightarrow> if k \<noteq> text_key \<and> k \<noteq> id_key \<and> is_scalar v then Some v else None)"
    using b by simp
next
  fix doc md vs
  assume f: "flatten_metadata doc text_key id_key = Inr md"
    and t: "map_of doc ''tags'' = Some (VList vs) \<or> map_of doc ''tags'' = Some (VSet vs)"
  from flatten_metadata_tags[OF f t] obtain ss where "str_elems vs = Some ss"
    and "md = AList.update ''tags'' (VStr (join '','' (sort ss)))
               (filter (\<lambda>(k, v). k \<notin> set [text_key, id_key] \<and> is_scalar v) doc)"
    by blast
  then show "\<exists>ss. str_elems vs = Some ss \<and>
                 map_of md ''tags'' = Some (VStr (join '','' (sort ss))) \<and>
                 sorted (sort ss) \<and> mset (sort ss) = mset ss"
    by (simp add: update_conv')
qed

theorem add_documents_metadata_scalar_witness:
  "\<lparr>ids = [''doc1''], embeddings = [[0]],
    documents = [VStr ''Federal reserve raises interest rates.''],
    metadatas = [[(''publication_date'', VStr ''2023-01-01''),
                  (''tags'', VStr ''inflation,interest_rates'')]]\<rparr>
     \<in> set (snd (add_documents example_encode example_upsert example_str
          [[(''url'', VStr ''doc1''), (''cleaned_text'', VStr ''Federal reserve raises interest rates.''),
            (''publication_date'', VStr ''2023-01-01''), (''authors'', VList [VStr ''a'']),
            (''score'', VNone), (''tags'', VSet [VStr ''interest_rates'', VStr ''inflation''])],
           [(''url'', VStr ''doc2''), (''cleaned_text'', VStr [])]]
          ''cleaned_text'' ''url'')) \<and>
   is_scalar (VStr ''2023-01-01'') \<and> is_scalar (VStr ''inflation,interest_rates'')"
proof -
  have h: "\<lparr>ids = [''doc1''], embeddings = [[0]],
    documents = [VStr ''Federal reserve raises interest rates.''],
    metadatas = [[(''publication_date'', VStr ''2023-01-01''),
                  (''tags'', VStr ''inflation,interest_rates'')]]\<rparr>
     \<in> set (snd (add_documents example_encode example_upsert example_str
          [[(''url'', VStr ''doc1''), (''cleaned_text'', VStr ''Federal reserve raises interest rates.''),
            (''publication_date'', VStr ''2023-01-01''), (''authors'', VList [VStr ''a'']),
            (''score'', VNone), (''tags'', VSet [VStr ''interest_rates'', VStr ''inflation''])],
           [(''url'', VStr ''doc2''), (''cleaned_text'', VStr [])]]
          ''cleaned_text'' ''url''))"
    by code_simp
  from add_documents_metadata_scalar [OF h] h show ?thesis by simp
qed

text \<open>
  C7, as the code has it. \<open>search\<close> does not check \<open>n_results\<close>. Whenever the query text can
  be embedded, the backend's \<open>query\<close> is called once, with \<open>n_results\<close> as the caller gave it,
  positive or not; when the backend answers with a well-formed result, \<open>search\<close> returns its
  hits; and the only exception \<open>search\<close> raises is \<open>RetrievalError\<close>, which stands for a
  failure of the embedding, an exception of the backend or a malformed result alike.
\<close>

theorem search_forwards_n_results:
  assumes "encode [VStr query_text] = Inr emb"
  shows "snd (search encode query query_text n flt) =
           [\<lparr>query_embeddings = emb, n_results = n, where_filter = flt\<rparr>] \<and>
         (\<forall>results hits.
            query \<lparr>query_embeddings = emb, n_results = n, where_filter = flt\<rparr> = Inr results \<longrightarrow>
            reformat results = Inr hits \<longrightarrow>
            fst (search encode query query_text n flt) = Inr hits) \<and>
         (\<forall>e. fst (search encode query query_text n flt) = Inl e \<longrightarrow> e = RetrievalError)"
  using assms by (auto simp: search_def Let_def split: sum.splits)

theorem search_forwards_n_results_witness:
  "example_encode [VStr ''inflation''] = Inr [[0]] \<and>
   snd (search example_encode example_query ''inflation'' (- 1) None) =
     [\<lparr>query_embeddings = [[0]], n_results = - 1, where_filter = None\<rparr>]"
proof -
  have h: "example_encode [VStr ''inflation''] = Inr [[0]]"
    by (simp add: example_encode_def)
  from search_forwards_n_results
         [of example_encode "''inflation''" "[[0]]" example_query "- 1" None, OF h] h
  show ?thesis by simp
qed

text \<open>
  C7 as stated fails: a search with \<open>n_results = 0\<close> is not rejected. The query reaches the
  backend with \<open>n_results = 0\<close>, and what the backend answers is returned.
\<close>

theorem search_nonpositive_counterexample:
  "search example_encode example_query ''inflation'' 0 None =
     (Inr [\<lparr>hit_id = ''d1#0'', hit_distance = 0,
            hit_metadata = [(''parent_document_id'', VStr ''d1'')], hit_document = ''hello''\<rparr>],
      [\<lparr>query_embeddings = [[0]], n_results = 0, where_filter = None\<rparr>])"
  by code_simp

section \<open>The document store\<close>

lemma meta_path_differs: "meta_path_of p \<noteq> p"
  by (simp add: meta_path_of_def)

lemma scenario_storage_path:
  assumes "urlparse lib ''http://a.com/x'' = (''a.com'', ''/x'')" and "quote lib ''x'' = ''x''"
  shows "get_storage_path lib base ''http://a.com/x'' = base @ ''/a.com/x.bin''"
  using assms
  by (simp add: get_storage_path_def strip_slashes_def replace_char_def endswith_def lower_def
      lower_char_def path_join_def Let_def)

lemma scenario_suffix: "path_suffix (base @ ''/a.com/x.bin'') = ''.bin''"
  by (simp add: path_suffix_def path_name_def Let_def)

lemma retrieve_binary:
  assumes "path_suffix (get_storage_path lib base doc) = ''.bin''"
  shows "retrieve_document lib base doc fs = Inr None \<or>
         retrieve_document lib base doc fs = Inl DataStorageError \<or>
         (\<exists>raw md. files fs (get_storage_path lib base doc) = Some raw \<and>
                   retrieve_document lib base doc fs = Inr (Some (Bytes raw, md)))"
  using assms
  by (auto simp: retrieve_document_def Let_def split: option.splits)

lemma save_document_content:
  assumes "fst (save_document lib base doc cont meta fs) = None"
  shows "files (snd (save_document lib base doc cont meta fs)) (get_storage_path lib base doc) =
           Some (case cont of Bytes bs \<Rightarrow> bs | Str text \<Rightarrow> utf8_encode lib text)"
  using assms meta_path_differs[of "get_storage_path lib base doc"]
  by (auto simp: save_document_def write_file_def Let_def split: option.splits if_splits sum.splits)

text \<open>
  C4 at its own scenario. With the standard library parsing \<open>http://a.com/x\<close> as it does
  (netloc \<open>a.com\<close>, path \<open>/x\<close>, nothing to quote in \<open>x\<close>), the document is stored at
  \<open>base/a.com/x.bin\<close>. \<open>save_document\<close> writes the text \<open>hello\<close> in text mode, and
  \<open>retrieve_document\<close> reads every \<open>.bin\<close> file in binary mode: whatever the file system and
  the metadata read, the content returned is never the string \<open>hello\<close>; after a successful
  save it is the bytes of its UTF-8 encoding (or the read fails on the sidecar).
\<close>

theorem retrieve_after_save_text:
  assumes "urlparse lib ''http://a.com/x'' = (''a.com'', ''/x'')" and "quote lib ''x'' = ''x''"
  shows "(\<forall>md. retrieve_document lib base ''http://a.com/x''
                 (snd (save_document lib base ''http://a.com/x'' (Str ''hello'') (Some [(''k'', VInt 1)]) fs))
               \<noteq> Inr (Some (Str ''hello'', md))) \<and>
         (fst (save_document lib base ''http://a.com/x'' (Str ''hello'') (Some [(''k'', VInt 1)]) fs) = None \<longrightarrow>
            retrieve_document lib base ''http://a.com/x''
              (snd (save_document lib base ''http://a.com/x'' (Str ''hello'') (Some [(''k'', VInt 1)]) fs))
              = Inl DataStorageError \<or>
            (\<exists>md. retrieve_document lib base ''http://a.com/x''
                    (snd (save_document lib base ''http://a.com/x'' (Str ''hello'') (Some [(''k'', VInt 1)]) fs))
                  = Inr (Some (Bytes (utf8_encode lib ''hello''), md))))"
proof -
  let ?doc = "''http://a.com/x''"
  let ?save = "save_document lib base ?doc (Str ''hello'') (Some [(''k'', VInt 1)]) fs"
  have sfx: "path_suffix (get_storage_path lib base ?doc) = ''.bin''"
    unfolding scenario_storage_path[OF assms] by (rule scenario_suffix)
  note r = retrieve_binary[OF sfx, of "snd ?save"]
  have a: "\<forall>md. retrieve_document lib base ?doc (snd ?save) \<noteq> Inr (Some (Str ''hello'', md))"
    using r by auto
  have b: "retrieve_document lib base ?doc (snd ?save) = Inl DataStorageError \<or>
            (\<exists>md. retrieve_document lib base ?doc (snd ?save)
                  = Inr (Some (Bytes (utf8_encode lib ''hello''), md)))"
    if ok: "fst ?save = None"
  proof -
    have f: "files (snd ?save) (get_storage_path lib base ?doc) = Some (utf8_encode lib ''hello'')"
      using save_document_content[OF ok] by simp
    then have "retrieve_document lib base ?doc (snd ?save) \<noteq> Inr None"
      by (auto simp: retrieve_document_def Let_def split: option.splits)
    then show ?thesis using r f by auto
  qed
  show ?thesis using a b by blast
qed

theorem retrieve_after_save_text_witness:
  "urlparse example_lib ''http://a.com/x'' = (''a.com'', ''/x'') \<and>
   quote example_lib ''x'' = ''x'' \<and>
   fst (save_document example_lib ''./document_store'' ''http://a.com/x'' (Str ''hello'')
          (Some [(''k'', VInt 1)]) empty_fs) = None \<and>
   retrieve_document example_lib ''./document_store'' ''http://a.com/x''
     (snd (save_document example_lib ''./document_store'' ''http://a.com/x'' (Str ''hello'')
             (Some [(''k'', VInt 1)]) empty_fs))
     \<noteq> Inr (Some (Str ''hello'', Some (VDict [(''k'', VInt 1)]))) \<and>
   retrieve_document example_lib ''./document_store'' ''http://a.com/x''
     (snd (save_document example_lib ''./document_store'' ''http://a.com/x'' (Str ''hello'')
             (Some [(''k'', VInt 1)]) empty_fs))
     = Inr (Some (Bytes [104, 101, 108, 108, 111], Some (VDict [(''k'', VInt 1)])))"
proof -
  have h1: "urlparse example_lib ''http://a.com/x'' = (''a.com'', ''/x'')"
    by (simp add: example_lib_def)
  have h2: "quote example_lib ''x'' = ''x''"
    by (simp add: example_lib_def)
  have h3: "fst (save_document example_lib ''./document_store'' ''http://a.com/x'' (Str ''hello'')
          (Some [(''k'', VInt 1)]) empty_fs) = None"
    by code_simp
  have e: "retrieve_document example_lib ''./document_store'' ''http://a.com/x''
     (snd (save_document example_lib ''./document_store'' ''http://a.com/x'' (Str ''hello'')
             (Some [(''k'', VInt 1)]) empty_fs))
     = Inr (Some (Bytes [104, 101, 108, 108, 111], Some (VDict [(''k'', VInt 1)])))"
    by code_simp
  from retrieve_after_save_text [OF h1 h2, of "''./document_store''" empty_fs] h1 h2 h3 e
  show ?thesis by blast
qed

text \<open>
  The other half of C4 holds: after a delete that reports success, a read gives the
  not-found result.
\<close>

lemma delete_then_retrieve:
  assumes "fst (delete_document lib base doc fs)"
  shows "retrieve_document lib base doc (snd (delete_document lib base doc fs)) = Inr None"
  using assms meta_path_differs[of "get_storage_path lib base doc"]
  by (auto simp: delete_document_def retrieve_document_def unlink_def Let_def split: option.splits if_splits)

section \<open>A chunk size that is not positive\<close>

text \<open>
  \<open>DocumentChunker.__init__\<close> does not check the chunk size. With a chunk size of 0 or
  less and an overlap that is not below it, the window of \<open>_simple_chunking\<close> never moves
  forward and the loop never returns on a non-empty text.
\<close>

lemma simple_chunking_loop_diverges:
  assumes "csize \<le> 0" and "csize \<le> coverlap" and "start < int (length doc_text)"
  shows "simple_chunking_loop csize coverlap doc_text start chunks = None"
proof (rule ccontr)
  assume "simple_chunking_loop csize coverlap doc_text start chunks \<noteq> None"
  then obtain r where r: "simple_chunking_loop csize coverlap doc_text start chunks = Some r" by auto
  have "\<not> (csize \<le> 0 \<and> csize \<le> coverlap \<and> start < int (length doc_text))"
  proof (rule simple_chunking_loop.raw_induct
      [where P = "\<lambda>sz ov tx st cs res. \<not> (sz \<le> 0 \<and> sz \<le> ov \<and> st < int (length tx))", OF _ r])
    fix loop sz ov tx st cs res
    assume IH: "\<And>sz ov tx st cs res. loop sz ov tx st cs = Some res \<Longrightarrow>
                  \<not> (sz \<le> 0 \<and> sz \<le> ov \<and> st < int (length tx))"
      and body: "(let text_len = int (length tx) in
      if st < text_len then
        (let end_index = min (st + sz) text_len;
             chunks1 = cs @ [py_slice tx st end_index];
             next_start = st + sz - ov;
             next_start1 = (if next_start \<le> st then st + sz else next_start)
         in if next_start1 \<ge> text_len \<and> int (length (last chunks1)) < sz \<and> end_index = text_len
            then Some chunks1
            else loop sz ov tx next_start1 chunks1)
      else Some cs) = Some res"
    show "\<not> (sz \<le> 0 \<and> sz \<le> ov \<and> st < int (length tx))"
    proof
      assume h: "sz \<le> 0 \<and> sz \<le> ov \<and> st < int (length tx)"
      have nx: "(if st + sz - ov \<le> st then st + sz else st + sz - ov) = st + sz"
        using h by simp
      have "loop sz ov tx (st + sz) (cs @ [py_slice tx st (min (st + sz) (int (length tx)))]) = Some res"
        using body h unfolding Let_def nx by (simp split: if_splits)
      from IH[OF this] show False using h by simp
    qed
  qed
  then show False using assms by simp
qed

lemma split_text_nonpositive_chunk_size:
  assumes "csize \<le> 0" and "csize \<le> coverlap" and "doc_text \<noteq> []"
  shows "fst (DocumentChunker_init csize coverlap ''simple'') =
           Inr \<lparr>chunk_size = csize, chunk_overlap = 0, chunking_method = ''simple'', splitter = None\<rparr> \<and>
         split_text \<lparr>chunk_size = csize, chunk_overlap = 0, chunking_method = ''simple'', splitter = None\<rparr>
           (VStr doc_text) = None"
proof -
  have len: "0 < int (length doc_text)" using assms(3) by simp
  then have "simple_chunking_loop csize 0 doc_text 0 [] = None"
    using assms(1) by (intro simple_chunking_loop_diverges) auto
  moreover have "\<not> int (length doc_text) \<le> csize" using len assms(1) by linarith
  ultimately show ?thesis
    using assms(2) by (simp add: DocumentChunker_init_def split_text_def simple_chunking_def)
qed

end
